theory Spec2Isabelle
  imports Complex_Main "HOL-Library.Sublist" "HOL-Library.Multiset"
begin

section \<open>Python values used by the pipeline\<close>

text \<open>
  A Python \<open>str\<close> is modelled as a \<open>string\<close> whose characters are the code points
  below 256; \<open>len\<close> is \<open>length\<close>. The character classes below are the ones
  \<open>str.isspace\<close>, \<open>str.lower\<close> and the regular expression class \<open>\w\<close> have on
  that range. Python integers are \<open>int\<close>, floats that only carry times and scores are
  \<open>real\<close>.
\<close>

datatype exn =
    TypeError string
  | AttributeError string
  | ValueError string
  | IndexError string
  | RuntimeError string
  | Exception string

definition slice_index :: "int \<Rightarrow> int \<Rightarrow> nat" where
  \<comment> \<open>how a slice bound is read against a sequence of length \<open>n\<close>\<close>
  "slice_index n i = (if i < 0 then nat (max 0 (i + n)) else nat (min i n))"

definition py_slice :: "'a list \<Rightarrow> int \<Rightarrow> int \<Rightarrow> 'a list" where
  \<comment> \<open>\<open>xs[i:j]\<close>\<close>
  "py_slice xs i j =
     (let n = int (length xs); lo = slice_index n i; hi = slice_index n j
      in take (hi - lo) (drop lo xs))"

definition py_slice_from :: "'a list \<Rightarrow> int \<Rightarrow> 'a list" where
  \<comment> \<open>\<open>xs[i:]\<close>\<close>
  "py_slice_from xs i = drop (slice_index (int (length xs)) i) xs"

definition py_slice_to :: "'a list \<Rightarrow> int \<Rightarrow> 'a list" where
  \<comment> \<open>\<open>xs[:j]\<close>\<close>
  "py_slice_to xs j = take (slice_index (int (length xs)) j) xs"

definition is_space :: "char \<Rightarrow> bool" where
  "is_space c = ((of_char c :: nat) \<in> {9, 10, 11, 12, 13, 28, 29, 30, 31, 32, 133, 160})"

definition is_word_char :: "char \<Rightarrow> bool" where
  "is_word_char c =
     (let n = (of_char c :: nat)
      in (48 \<le> n \<and> n \<le> 57) \<or> (65 \<le> n \<and> n \<le> 90) \<or> n = 95 \<or> (97 \<le> n \<and> n \<le> 122)
         \<or> n = 170 \<or> n = 178 \<or> n = 179 \<or> n = 181 \<or> n = 185 \<or> n = 186
         \<or> (188 \<le> n \<and> n \<le> 190) \<or> (192 \<le> n \<and> n \<le> 214) \<or> (216 \<le> n \<and> n \<le> 246)
         \<or> 248 \<le> n)"

definition lower_char :: "char \<Rightarrow> char" where
  "lower_char c =
     (let n = (of_char c :: nat)
      in if (65 \<le> n \<and> n \<le> 90) \<or> (192 \<le> n \<and> n \<le> 214) \<or> (216 \<le> n \<and> n \<le> 222)
         then char_of (n + 32) else c)"

definition py_lower :: "string \<Rightarrow> string" where
  "py_lower s = map lower_char s"

definition py_strip :: "string \<Rightarrow> string" where
  "py_strip s = rev (dropWhile is_space (rev (dropWhile is_space s)))"

fun split_ws :: "string \<Rightarrow> string \<Rightarrow> string list" where
  "split_ws cur [] = (if cur = [] then [] else [cur])"
| "split_ws cur (c # cs) =
     (if is_space c then (if cur = [] then split_ws [] cs else cur # split_ws [] cs)
      else split_ws (cur @ [c]) cs)"

definition py_split :: "string \<Rightarrow> string list" where
  \<comment> \<open>\<open>s.split()\<close>: the maximal runs of non-whitespace characters\<close>
  "py_split s = split_ws [] s"

fun split_sep :: "char \<Rightarrow> string \<Rightarrow> string \<Rightarrow> string list" where
  "split_sep sep cur [] = [cur]"
| "split_sep sep cur (c # cs) =
     (if c = sep then cur # split_sep sep [] cs else split_sep sep (cur @ [c]) cs)"

definition py_split_on :: "char \<Rightarrow> string \<Rightarrow> string list" where
  \<comment> \<open>\<open>s.split(sep)\<close> for a one-character separator: empty pieces are kept\<close>
  "py_split_on sep s = split_sep sep [] s"

fun py_join :: "string \<Rightarrow> string list \<Rightarrow> string" where
  "py_join sep [] = []"
| "py_join sep [x] = x"
| "py_join sep (x # y # ys) = x @ sep @ py_join sep (y # ys)"

fun py_in :: "string \<Rightarrow> string \<Rightarrow> bool" where
  \<comment> \<open>\<open>g in s\<close> on strings: \<open>g\<close> occurs in \<open>s\<close> as a contiguous run\<close>
  "py_in g [] = (g = [])"
| "py_in g (c # cs) = (prefix g (c # cs) \<or> py_in g cs)"

fun word_runs :: "string \<Rightarrow> string \<Rightarrow> string list" where
  "word_runs cur [] = (if 3 \<le> length cur then [cur] else [])"
| "word_runs cur (c # cs) =
     (if is_word_char c then word_runs (cur @ [c]) cs
      else (if 3 \<le> length cur then cur # word_runs [] cs else word_runs [] cs))"

definition findall_words :: "string \<Rightarrow> string list" where
  \<comment> \<open>\<open>re.findall(r'\b\w{3,}\b', s)\<close>: the maximal runs of word characters that have
      at least three characters, in order of occurrence\<close>
  "findall_words s = word_runs [] s"

definition digit_char :: "nat \<Rightarrow> char" where
  "digit_char d = char_of (48 + d)"

function nat_str :: "nat \<Rightarrow> string" where
  "nat_str n = (if n < 10 then [digit_char n] else nat_str (n div 10) @ [digit_char (n mod 10)])"
  by pat_completeness auto
termination
  by (relation "measure id") auto

declare nat_str.simps [simp del]

definition int_str :: "int \<Rightarrow> string" where
  \<comment> \<open>\<open>str(i)\<close> of an integer\<close>
  "int_str i = (if i < 0 then CHR ''-'' # nat_str (nat (- i)) else nat_str (nat i))"

definition py_or :: "int option \<Rightarrow> int \<Rightarrow> int" where
  \<comment> \<open>\<open>x or d\<close> for an optional integer argument: \<open>None\<close> and \<open>0\<close> are both falsy\<close>
  "py_or x d = (case x of None \<Rightarrow> d | Some v \<Rightarrow> if v = 0 then d else v)"

section \<open>config.py\<close>

definition CHUNK_SIZE :: int where "CHUNK_SIZE = 1000"
definition CHUNK_OVERLAP :: int where "CHUNK_OVERLAP = 200"
definition DEFAULT_MAX_TOKENS :: int where "DEFAULT_MAX_TOKENS = 4000"
definition SIMILARITY_SEARCH_K :: int where "SIMILARITY_SEARCH_K = 4"
definition OLLAMA_MODEL :: string where "OLLAMA_MODEL = ''llama3.1:latest''"

section \<open>pdf\_processor.py: TextProcessor\<close>

datatype meta_value = MStr string | MInt int

type_synonym meta = "string \<rightharpoonup> meta_value"

record document =
  page_content :: string
  metadata :: "meta option"

record text_processor =
  chunk_size :: int
  chunk_overlap :: int

definition TextProcessor :: "int option \<Rightarrow> int option \<Rightarrow> text_processor" where
  \<comment> \<open>\<open>__init__(self, chunk_size=None, chunk_overlap=None)\<close>\<close>
  "TextProcessor cs ov =
     \<lparr>chunk_size = py_or cs CHUNK_SIZE, chunk_overlap = py_or ov CHUNK_OVERLAP\<rparr>"

definition make_chunk :: "text_processor \<Rightarrow> string \<Rightarrow> string \<Rightarrow> string \<Rightarrow> int \<Rightarrow> int \<Rightarrow> document" where
  \<comment> \<open>the dictionary one iteration of the loop appends; \<open>file_type\<close> is the value of
      \<open>Path(source_name).suffix.lower()\<close>, which pathlib computes\<close>
  "make_chunk self text source_name file_type start cid =
     (let end = start + chunk_size self;
          chunk_text = py_slice text start end
      in \<lparr>page_content = chunk_text,
          metadata = Some [''source'' \<mapsto> MStr source_name,
                           ''chunk_id'' \<mapsto> MInt cid,
                           ''start_char'' \<mapsto> MInt start,
                           ''end_char'' \<mapsto> MInt (min end (int (length text))),
                           ''file_type'' \<mapsto> MStr file_type]\<rparr>)"

partial_function (option) create_chunks_loop ::
  "text_processor \<Rightarrow> string \<Rightarrow> string \<Rightarrow> string \<Rightarrow> int \<Rightarrow> int \<Rightarrow> document list
     \<Rightarrow> document list option" where
  "create_chunks_loop self text source_name file_type start cid chunks =
     (if start < int (length text) then
        create_chunks_loop self text source_name file_type
          (start + (chunk_size self - chunk_overlap self)) (cid + 1)
          (chunks @ [make_chunk self text source_name file_type start cid])
      else Some chunks)"

definition create_chunks ::
  "text_processor \<Rightarrow> string \<Rightarrow> string \<Rightarrow> string \<Rightarrow> document list option" where
  \<comment> \<open>\<open>None\<close>: the \<open>while\<close> loop never exits. The method has no \<open>raise\<close>.\<close>
  "create_chunks self text source_name file_type =
     create_chunks_loop self text source_name file_type 0 0 []"

definition meta_int :: "document \<Rightarrow> string \<Rightarrow> int option" where
  \<comment> \<open>reads an integer field of a chunk's metadata\<close>
  "meta_int d k =
     (case metadata d of
        None \<Rightarrow> None
      | Some m \<Rightarrow> (case m k of Some (MInt i) \<Rightarrow> Some i | _ \<Rightarrow> None))"

definition claimed_chunk_count :: "int \<Rightarrow> int \<Rightarrow> int \<Rightarrow> int" where
  \<comment> \<open>the count the specification states: \<open>ceil(max(0, L - overlap) / (chunk_size - overlap))\<close>\<close>
  "claimed_chunk_count L csize ov = \<lceil>real_of_int (max 0 (L - ov)) / real_of_int (csize - ov)\<rceil>"

section \<open>retrieval\_qa.py: RAGChatbot\<close>

text \<open>
  The chatbot talks to three collaborators: the vector store's \<open>similarity_search\<close>, the
  generation service reached through \<open>requests.post\<close>, and the clock. They are the fields
  of \<open>world\<close>; \<open>chat\<close> returns, next to its result and the updated chatbot, the list of
  calls it made to the first two, in order.
\<close>

datatype json =
    JNull
  | JBool bool
  | JInt int
  | JFloat real
  | JStr string
  | JArr "json list"
  | JObj "string \<Rightarrow> json option"

datatype http_result =
    RequestFailed string
  | OtherFailed string
  | Body json

text \<open>
  \<open>RequestFailed msg\<close>: \<open>requests.post\<close>, \<open>raise_for_status\<close> or \<open>r.json()\<close> raised a
  \<open>RequestException\<close> whose \<open>str\<close> is \<open>msg\<close> (no connection, timeout, error status).
  \<open>OtherFailed msg\<close>: one of them raised another \<open>Exception\<close>. \<open>Body data\<close>: the status
  was fine and the body parsed to the JSON value \<open>data\<close>.
\<close>

record payload =
  payload_model :: string
  payload_prompt :: string
  payload_stream :: bool
  num_predict :: int
  temperature :: real
  top_p :: real
  repeat_penalty :: real

datatype call = SearchCall string int | GenerateCall payload

record exchange =
  question :: string
  answer :: json
  timestamp :: real

record perf =
  queries :: int
  avg_retrieval_time :: real
  avg_generation_time :: real
  cache_hits :: int

record rag_chatbot =
  memory :: "exchange list"
  max_memory_items :: int
  max_context_length :: int
  max_tokens :: int
  performance_stats :: perf

record timing =
  retrieval_time :: real
  generation_time :: real
  total_time :: real

record chat_result =
  result_answer :: json
  sources :: "document list"
  stats :: timing

record world =
  similarity_search :: "string \<Rightarrow> int \<Rightarrow> exn + document list"
  post_generate :: "payload \<Rightarrow> http_result"
  py_str :: "json \<Rightarrow> string"
  py_round3 :: "real \<Rightarrow> real"
  time_start :: real
  time_retrieval_start :: real
  time_retrieval_end :: real
  time_generation_start :: real
  time_generation_end :: real
  time_memory :: real
  time_end :: real

text \<open>
  \<open>py_str\<close> is \<open>str\<close> on a value that is not a string and \<open>py_round3 x\<close> is
  \<open>round(x, 3)\<close>; the \<open>time_\<close> fields are the readings of \<open>time.time()\<close> at the places
  where \<open>chat\<close> and \<open>_update_memory\<close> take them.
\<close>

definition RAGChatbot :: "int option \<Rightarrow> rag_chatbot" where
  \<comment> \<open>\<open>__init__(self, vector_store, max_tokens=None)\<close>\<close>
  "RAGChatbot max_tokens_arg =
     \<lparr>memory = [], max_memory_items = 10, max_context_length = 8000,
      max_tokens = py_or max_tokens_arg DEFAULT_MAX_TOKENS,
      performance_stats = \<lparr>queries = 0, avg_retrieval_time = 0, avg_generation_time = 0,
                             cache_hits = 0\<rparr>\<rparr>"

definition greetings :: "string list" where
  "greetings = [''hi'', ''hello'', ''hey'', ''good morning'', ''good afternoon'', ''good evening'']"

definition greeting_answer :: string where
  "greeting_answer =
     ''Hi! I'm here to help you with questions about your documents. What would you like to know?''"

definition is_simple_greeting :: "string \<Rightarrow> bool" where
  "is_simple_greeting query =
     (let query_lower = py_strip (py_lower query)
      in list_ex (\<lambda>greeting. py_in greeting query_lower) greetings
         \<and> length (py_split query) \<le> 3)"

definition stop_words :: "string list" where
  "stop_words =
     [''the'', ''a'', ''an'', ''and'', ''or'', ''but'', ''in'', ''on'', ''at'', ''to'', ''for'', ''of'',
      ''with'', ''by'', ''is'', ''are'', ''was'', ''were'', ''be'', ''been'', ''being'', ''have'',
      ''has'', ''had'', ''do'', ''does'', ''did'', ''will'', ''would'', ''could'', ''should'']"

definition optimize_query :: "string \<Rightarrow> string" where
  "optimize_query query =
     (let words = findall_words (py_lower query);
          key_terms = filter (\<lambda>word. word \<notin> set stop_words) words
      in if key_terms \<noteq> [] then query @ '' '' @ py_join '' '' (py_slice_to key_terms 5)
         else query)"

definition relevance_score :: "string set \<Rightarrow> document \<Rightarrow> real" where
  \<comment> \<open>the body of the scoring loop, for one document\<close>
  "relevance_score query_words doc =
     (let content = py_lower (page_content doc);
          content_words = set (findall_words content);
          word_overlap = card (query_words \<inter> content_words);
          content_length = length (page_content doc)
      in real word_overlap * 10 + min (real content_length / 100) 10)"

definition py_sort_reverse :: "('a \<Rightarrow> real) \<Rightarrow> 'a list \<Rightarrow> 'a list" where
  \<comment> \<open>\<open>xs.sort(key=key, reverse=True)\<close>: the stable sort into descending key order, in which
      elements of equal key keep their order\<close>
  "py_sort_reverse key xs = sort_key (\<lambda>x. - key x) xs"

definition rerank_documents :: "document list \<Rightarrow> string \<Rightarrow> document list" where
  "rerank_documents docs query =
     (if docs = [] then docs
      else
        (let query_words = set (findall_words (py_lower query));
             scored_docs = map (\<lambda>doc. (relevance_score query_words doc, doc)) docs
         in map snd (py_sort_reverse fst scored_docs)))"

definition update_stats :: "rag_chatbot \<Rightarrow> real \<Rightarrow> real \<Rightarrow> rag_chatbot" where
  "update_stats self rt gt =
     (let ps = performance_stats self;
          n = queries ps + 1;
          ps1 = ps\<lparr>queries := n\<rparr>;
          ps2 = ps1\<lparr>avg_retrieval_time :=
                      (avg_retrieval_time ps1 * real_of_int (n - 1) + rt) / real_of_int n\<rparr>;
          ps3 = ps2\<lparr>avg_generation_time :=
                      (avg_generation_time ps2 * real_of_int (n - 1) + gt) / real_of_int n\<rparr>
      in self\<lparr>performance_stats := ps3\<rparr>)"

fun meta_str :: "meta_value \<Rightarrow> string" where
  "meta_str (MStr s) = s"
| "meta_str (MInt i) = int_str i"

definition source_label :: "int \<Rightarrow> document \<Rightarrow> exn + string" where
  \<comment> \<open>\<open>doc.get("metadata", {}).get("source", f"Document {i}")\<close>, formatted\<close>
  "source_label i doc =
     (case metadata doc of
        None \<Rightarrow> Inl (AttributeError (CHR 0x27 # ''NoneType'' @ CHR 0x27 # '' object has no attribute ''
                                     @ CHR 0x27 # ''get'' @ [CHR 0x27]))
      | Some m \<Rightarrow>
          (case m ''source'' of
             None \<Rightarrow> Inr (''Document '' @ int_str i)
           | Some v \<Rightarrow> Inr (meta_str v)))"

fun context_parts :: "int \<Rightarrow> document list \<Rightarrow> exn + string list" where
  "context_parts i [] = Inr []"
| "context_parts i (doc # docs) =
     (let content = py_strip (page_content doc)
      in case source_label i doc of
           Inl e \<Rightarrow> Inl e
         | Inr source \<Rightarrow>
             (case context_parts (i + 1) docs of
                Inl e \<Rightarrow> Inl e
              | Inr parts \<Rightarrow>
                  Inr ((''[Source '' @ int_str i @ '': '' @ source @ '']\<newline>'' @ content) # parts)))"

definition prepare_context :: "document list \<Rightarrow> string \<Rightarrow> exn + string" where
  "prepare_context docs prompt =
     (if docs = [] then Inr ''No relevant documents found.''
      else
        (case context_parts 1 docs of
           Inl e \<Rightarrow> Inl e
         | Inr parts \<Rightarrow>
             (let context = ''\<newline>\<newline>'' @ replicate 50 CHR ''='' @ py_join ''\<newline>\<newline>'' parts;
                  total_chars = int (length context);
                  context_header =
                    ''[Context contains '' @ int_str (int (length docs)) @ '' relevant sections, ''
                    @ int_str total_chars @ '' characters total]\<newline>\<newline>''
              in Inr (context_header @ context))))"

definition py_type_name :: "json \<Rightarrow> string" where
  "py_type_name v =
     (case v of
        JNull \<Rightarrow> ''NoneType'' | JBool _ \<Rightarrow> ''bool'' | JInt _ \<Rightarrow> ''int'' | JFloat _ \<Rightarrow> ''float''
      | JStr _ \<Rightarrow> ''str'' | JArr _ \<Rightarrow> ''list'' | JObj _ \<Rightarrow> ''dict'')"

definition llm_user_prompt :: "string \<Rightarrow> string \<Rightarrow> string" where
  \<comment> \<open>\<open>system_prompt.format(context=context, question=prompt)\<close>\<close>
  "llm_user_prompt context prompt =
     ''You are a helpful assistant that answers questions based on the provided documents. Be natural, conversational, and concise.\<newline>\<newline>Guidelines:\<newline>- Answer directly and naturally, like you're having a conversation\<newline>- Keep responses short and to the point\<newline>- Only use information from the provided context\<newline>- If you don't know something, just say so simply\<newline>- Don't be overly formal or structured unless needed\<newline>- For simple greetings, respond naturally but guide toward document-related questions\<newline>\<newline>Context from documents:\<newline>''
     @ context @ ''\<newline>\<newline>Question: '' @ prompt @ ''\<newline>\<newline>Answer:''"

definition llm_payload :: "rag_chatbot \<Rightarrow> string \<Rightarrow> string \<Rightarrow> payload" where
  "llm_payload self prompt context =
     \<lparr>payload_model = OLLAMA_MODEL,
      payload_prompt = llm_user_prompt context prompt,
      payload_stream = False,
      num_predict = max_tokens self,
      temperature = 8 / 10,
      top_p = 9 / 10,
      repeat_penalty = 11 / 10\<rparr>"

definition llm_answer :: "world \<Rightarrow> rag_chatbot \<Rightarrow> string \<Rightarrow> string \<Rightarrow> json" where
  \<comment> \<open>the call with \<open>stream=False\<close>, the only one \<open>chat\<close> makes\<close>
  "llm_answer env self prompt context =
     (case post_generate env (llm_payload self prompt context) of
        RequestFailed msg \<Rightarrow> JStr (''Error communicating with Ollama: '' @ msg)
      | OtherFailed msg \<Rightarrow> JStr (''Error processing response: '' @ msg)
      | Body data \<Rightarrow>
          (case data of
             JObj d \<Rightarrow> (case d ''response'' of Some v \<Rightarrow> v | None \<Rightarrow> JStr ''[No answer returned]'')
           | _ \<Rightarrow> JStr (''Error processing response: '' @ CHR 0x27 # py_type_name data
                         @ CHR 0x27 # '' object has no attribute '' @ CHR 0x27 # ''get'' @ [CHR 0x27])))"

definition answer_prefix :: "world \<Rightarrow> json \<Rightarrow> exn + string" where
  \<comment> \<open>\<open>exchange['answer'][:200]\<close> inside the f-string: only strings and lists can be sliced;
      a dictionary rejects the slice as a key, the other values are not subscriptable\<close>
  "answer_prefix env a =
     (case a of
        JStr s \<Rightarrow> Inr (py_slice_to s 200)
      | JArr xs \<Rightarrow> Inr (py_str env (JArr (py_slice_to xs 200)))
      | JObj d \<Rightarrow> Inl (TypeError (''unhashable type: '' @ CHR 0x27 # ''slice'' @ [CHR 0x27]))
      | _ \<Rightarrow> Inl (TypeError (CHR 0x27 # py_type_name a @ CHR 0x27 # '' object is not subscriptable'')))"

fun memory_parts :: "world \<Rightarrow> exchange list \<Rightarrow> exn + string list" where
  "memory_parts env [] = Inr []"
| "memory_parts env (ex # exs) =
     (case answer_prefix env (answer ex) of
        Inl e \<Rightarrow> Inl e
      | Inr a \<Rightarrow>
          (case memory_parts env exs of
             Inl e \<Rightarrow> Inl e
           | Inr parts \<Rightarrow>
               Inr ((''Previous Q: '' @ question ex) # (''Previous A: '' @ a @ ''...'') # parts)))"

definition get_memory_context :: "world \<Rightarrow> rag_chatbot \<Rightarrow> exn + string" where
  "get_memory_context env self =
     (if memory self = [] then Inr []
      else
        (case memory_parts env (py_slice_from (memory self) (- 3)) of
           Inl e \<Rightarrow> Inl e
         | Inr parts \<Rightarrow>
             if parts \<noteq> [] then
               Inr (''[CONVERSATION HISTORY]\<newline>'' @ py_join ''\<newline>'' parts @ ''\<newline>[END HISTORY]'')
             else Inr []))"

definition update_memory :: "rag_chatbot \<Rightarrow> string \<Rightarrow> json \<Rightarrow> real \<Rightarrow> rag_chatbot" where
  "update_memory self q a now =
     (let appended = memory self @ [\<lparr>question = q, answer = a, timestamp = now\<rparr>]
      in if int (length appended) > max_memory_items self
         then self\<lparr>memory := py_slice_from appended (- max_memory_items self)\<rparr>
         else self\<lparr>memory := appended\<rparr>)"

fun keep_lines :: "int \<Rightarrow> int \<Rightarrow> string list \<Rightarrow> string list" where
  \<comment> \<open>the \<open>for line in lines\<close> loop with its \<open>break\<close>\<close>
  "keep_lines limit current_length [] = []"
| "keep_lines limit current_length (line # lines) =
     (if current_length + int (length line) > limit then []
      else line # keep_lines limit (current_length + int (length line) + 1) lines)"

definition truncation_marker :: string where
  "truncation_marker = ''\<newline>[...context truncated for length...]''"

definition optimize_context_length :: "rag_chatbot \<Rightarrow> string \<Rightarrow> string" where
  "optimize_context_length self context =
     (if int (length context) \<le> max_context_length self then context
      else
        (let lines = py_split_on CHR 0x0A context;
             optimized_lines = keep_lines (max_context_length self) 0 lines
         in py_join ''\<newline>'' optimized_lines @ truncation_marker))"

definition clear_memory :: "rag_chatbot \<Rightarrow> rag_chatbot" where
  "clear_memory self = self\<lparr>memory := []\<rparr>"

definition chat ::
  "world \<Rightarrow> rag_chatbot \<Rightarrow> string \<Rightarrow> (exn + chat_result) \<times> rag_chatbot \<times> call list" where
  "chat env self prompt =
     (if is_simple_greeting prompt then
        (Inr \<lparr>result_answer = JStr greeting_answer, sources = [],
              stats = \<lparr>retrieval_time = 0, generation_time = 0, total_time = 0\<rparr>\<rparr>,
         self, [])
      else
        (let optimized_query = optimize_query prompt;
             k = SIMILARITY_SEARCH_K * 2
         in case similarity_search env optimized_query k of
              Inl e \<Rightarrow> (Inl e, self, [SearchCall optimized_query k])
            | Inr docs \<Rightarrow>
                (let rt = time_retrieval_end env - time_retrieval_start env;
                     ranked_docs = py_slice_to (rerank_documents docs prompt) SIMILARITY_SEARCH_K
                 in case prepare_context ranked_docs prompt of
                      Inl e \<Rightarrow> (Inl e, self, [SearchCall optimized_query k])
                    | Inr context0 \<Rightarrow>
                        (case get_memory_context env self of
                           Inl e \<Rightarrow> (Inl e, self, [SearchCall optimized_query k])
                         | Inr memory_context \<Rightarrow>
                             (let context = (if memory_context \<noteq> []
                                             then memory_context @ ''\<newline>\<newline>'' @ context0
                                             else context0);
                                  ans = llm_answer env self prompt context;
                                  gt = time_generation_end env - time_generation_start env;
                                  self1 = update_memory self prompt ans (time_memory env);
                                  self2 = update_stats self1 rt gt
                              in (Inr \<lparr>result_answer = ans, sources = ranked_docs,
                                        stats = \<lparr>retrieval_time = py_round3 env rt,
                                                  generation_time = py_round3 env gt,
                                                  total_time = py_round3 env
                                                     (time_end env - time_start env)\<rparr>\<rparr>,
                                  self2,
                                  [SearchCall optimized_query k,
                                   GenerateCall (llm_payload self prompt context)]))))))"

section \<open>embeddings.py: EmbeddingManager\<close>

text \<open>
  The cache directory is a map from file names (cache keys) to file contents: a file holds
  a JSON value or does not parse. \<open>md5_hex\<close> is \<open>hashlib.md5(...).hexdigest()\<close>;
  \<open>post_embeddings text\<close> is the outcome of the request that carries \<open>text\<close> as its
  prompt, and \<open>json_str\<close> is \<open>str\<close> of a parsed body. An embedding is the JSON value found
  under \<open>"embedding"\<close>; \<open>JNull\<close> is Python's \<open>None\<close>.
\<close>

definition OLLAMA_EMBEDDING_MODEL :: string where
  "OLLAMA_EMBEDDING_MODEL = ''nomic-embed-text:latest''"

datatype cache_file = Corrupt | Stored json

record embedding_manager =
  cache_enabled :: bool
  cache_files :: "string \<rightharpoonup> cache_file"

record embed_world =
  md5_hex :: "string \<Rightarrow> string"
  post_embeddings :: "string \<Rightarrow> http_result"
  json_str :: "json \<Rightarrow> string"

datatype texts_arg = Text string | Texts "string list"

definition get_cache_key :: "embed_world \<Rightarrow> string \<Rightarrow> string" where
  "get_cache_key env tx = md5_hex env (OLLAMA_EMBEDDING_MODEL @ '':'' @ tx)"

definition load_from_cache :: "embedding_manager \<Rightarrow> string \<Rightarrow> json \<times> embedding_manager" where
  \<comment> \<open>a file that does not parse is removed and counts as absent\<close>
  "load_from_cache self cache_key =
     (if \<not> cache_enabled self then (JNull, self)
      else
        (case cache_files self cache_key of
           None \<Rightarrow> (JNull, self)
         | Some Corrupt \<Rightarrow> (JNull, self\<lparr>cache_files := (cache_files self)(cache_key := None)\<rparr>)
         | Some (Stored v) \<Rightarrow> (v, self)))"

definition save_to_cache :: "embedding_manager \<Rightarrow> string \<Rightarrow> json \<Rightarrow> embedding_manager" where
  "save_to_cache self cache_key embedding =
     (if \<not> cache_enabled self then self
      else self\<lparr>cache_files := (cache_files self)(cache_key \<mapsto> Stored embedding)\<rparr>)"

definition request_embedding :: "embed_world \<Rightarrow> string \<Rightarrow> exn + json" where
  \<comment> \<open>the \<open>try\<close> block of the second pass, up to the value of \<open>embedding\<close>\<close>
  "request_embedding env tx =
     (case post_embeddings env tx of
        RequestFailed msg \<Rightarrow> Inl (RuntimeError (''Request error: '' @ msg))
      | OtherFailed msg \<Rightarrow> Inl (Exception msg)
      | Body data \<Rightarrow>
          (case data of
             JObj d \<Rightarrow>
               (case d ''embedding'' of
                  Some v \<Rightarrow> Inr v
                | None \<Rightarrow> Inl (RuntimeError (''Embedding error: '' @ json_str env data)))
           | JArr xs \<Rightarrow>
               if JStr ''embedding'' \<in> set xs
               then Inl (TypeError ''list indices must be integers or slices, not str'')
               else Inl (RuntimeError (''Embedding error: '' @ json_str env data))
           | JStr s \<Rightarrow>
               if py_in ''embedding'' s
               then Inl (TypeError (''string indices must be integers, not '' @ CHR 0x27 # ''str'' @ [CHR 0x27]))
               else Inl (RuntimeError (''Embedding error: '' @ json_str env data))
           | _ \<Rightarrow> Inl (TypeError (''argument of type '' @ CHR 0x27 # py_type_name data
                                   @ CHR 0x27 # '' is not iterable''))))"

fun check_cache ::
  "embed_world \<Rightarrow> embedding_manager \<Rightarrow> nat \<Rightarrow> string list
     \<Rightarrow> (nat \<times> json) list \<times> string list \<times> nat list
     \<Rightarrow> ((nat \<times> json) list \<times> string list \<times> nat list) \<times> embedding_manager" where
  \<comment> \<open>first pass; the accumulator is \<open>(batch_embeddings, uncached_texts, uncached_indices)\<close>\<close>
  "check_cache env self idx [] acc = (acc, self)"
| "check_cache env self idx (tx # txs) (batch_embeddings, uncached_texts, uncached_indices) =
     (let cache_key = get_cache_key env tx;
          (cached_embedding, self1) = load_from_cache self cache_key
      in if cached_embedding \<noteq> JNull then
           check_cache env self1 (Suc idx) txs
             (batch_embeddings @ [(idx, cached_embedding)], uncached_texts, uncached_indices)
         else
           check_cache env self1 (Suc idx) txs
             (batch_embeddings, uncached_texts @ [tx], uncached_indices @ [idx]))"

fun fetch_uncached ::
  "embed_world \<Rightarrow> embedding_manager \<Rightarrow> nat \<Rightarrow> string list \<Rightarrow> nat list \<Rightarrow> (nat \<times> json) list
     \<Rightarrow> (exn + (nat \<times> json) list) \<times> embedding_manager" where
  \<comment> \<open>second pass, from position \<open>i\<close> of \<open>uncached_texts\<close>\<close>
  "fetch_uncached env self i [] uncached_indices batch_embeddings = (Inr batch_embeddings, self)"
| "fetch_uncached env self i (tx # txs) uncached_indices batch_embeddings =
     (case request_embedding env tx of
        Inl e \<Rightarrow> (Inl e, self)
      | Inr embedding \<Rightarrow>
          if i < length uncached_indices then
            (let original_idx = uncached_indices ! i;
                 self1 = save_to_cache self (get_cache_key env tx) embedding
             in fetch_uncached env self1 (Suc i) txs uncached_indices
                  (batch_embeddings @ [(original_idx, embedding)]))
          else (Inl (IndexError ''list index out of range''), self))"

definition process_batch ::
  "embed_world \<Rightarrow> embedding_manager \<Rightarrow> string list \<Rightarrow> (exn + json list) \<times> embedding_manager" where
  "process_batch env self batch_texts =
     (case check_cache env self 0 batch_texts ([], [], []) of
        ((batch_embeddings, uncached_texts, uncached_indices), self1) \<Rightarrow>
          (case fetch_uncached env self1 0 uncached_texts uncached_indices batch_embeddings of
             (Inl e, self2) \<Rightarrow> (Inl e, self2)
           | (Inr fetched, self2) \<Rightarrow> (Inr (map snd (sort_key fst fetched)), self2)))"

definition py_range :: "int \<Rightarrow> int \<Rightarrow> exn + int list" where
  \<comment> \<open>\<open>range(0, stop, step)\<close>\<close>
  "py_range stop step =
     (if step = 0 then Inl (ValueError ''range() arg 3 must not be zero'')
      else if step < 0 \<or> stop \<le> 0 then Inr []
      else Inr (map (\<lambda>j. int j * step) [0..<nat ((stop + step - 1) div step)]))"

fun embed_batches ::
  "embed_world \<Rightarrow> embedding_manager \<Rightarrow> string list \<Rightarrow> int \<Rightarrow> int list \<Rightarrow> json list
     \<Rightarrow> (exn + json list) \<times> embedding_manager" where
  \<comment> \<open>the \<open>for i in range(...)\<close> loop over the batch starts\<close>
  "embed_batches env self text_list batch_size [] embeddings = (Inr embeddings, self)"
| "embed_batches env self text_list batch_size (i # starts) embeddings =
     (let batch = py_slice text_list i (i + batch_size)
      in case process_batch env self batch of
           (Inl e, self1) \<Rightarrow> (Inl e, self1)
         | (Inr batch_embeddings, self1) \<Rightarrow>
             embed_batches env self1 text_list batch_size starts (embeddings @ batch_embeddings))"

definition text_list_of :: "texts_arg \<Rightarrow> string list" where
  \<comment> \<open>a single string is treated as a list of one text\<close>
  "text_list_of texts = (case texts of Text t \<Rightarrow> [t] | Texts ts \<Rightarrow> ts)"

definition embed_text ::
  "embed_world \<Rightarrow> embedding_manager \<Rightarrow> texts_arg \<Rightarrow> int \<Rightarrow> (exn + json list) \<times> embedding_manager" where
  "embed_text env self texts batch_size =
     (let text_list = text_list_of texts
      in case py_range (int (length text_list)) batch_size of
           Inl e \<Rightarrow> (Inl e, self)
         | Inr starts \<Rightarrow> embed_batches env self text_list batch_size starts [])"

subsection \<open>The per-text reading of a batch\<close>

definition cached_value :: "embedding_manager \<Rightarrow> string \<Rightarrow> json" where
  \<comment> \<open>what a lookup of the key returns\<close>
  "cached_value self cache_key = fst (load_from_cache self cache_key)"

definition hit :: "embed_world \<Rightarrow> embedding_manager \<Rightarrow> string \<Rightarrow> bool" where
  \<comment> \<open>the first pass finds an embedding for the text\<close>
  "hit env self tx = (cached_value self (get_cache_key env tx) \<noteq> JNull)"

definition resolve :: "embed_world \<Rightarrow> embedding_manager \<Rightarrow> string \<Rightarrow> exn + json" where
  \<comment> \<open>the embedding of one text against a cache state: the cached value on a hit, the
      provider's answer on a miss\<close>
  "resolve env self tx =
     (let v = cached_value self (get_cache_key env tx)
      in if v \<noteq> JNull then Inr v else request_embedding env tx)"

fun collect :: "(exn + 'a) list \<Rightarrow> exn + 'a list" where
  \<comment> \<open>all values in order, or the first error\<close>
  "collect [] = Inr []"
| "collect (Inl e # rs) = Inl e"
| "collect (Inr v # rs) = (case collect rs of Inl e \<Rightarrow> Inl e | Inr vs \<Rightarrow> Inr (v # vs))"

definition embedding_of :: "embed_world \<Rightarrow> embedding_manager \<Rightarrow> string \<Rightarrow> json \<Rightarrow> bool" where
  \<comment> \<open>\<open>v\<close> is an embedding for \<open>tx\<close> when run from the manager state \<open>self0\<close>: the value the
      cache held for its key at the start, or the provider's answer to a text with that key\<close>
  "embedding_of env self0 tx v =
     (cache_files self0 (get_cache_key env tx) = Some (Stored v)
      \<or> (\<exists>t. get_cache_key env t = get_cache_key env tx \<and> request_embedding env t = Inr v))"

definition cache_sound :: "embed_world \<Rightarrow> embedding_manager \<Rightarrow> embedding_manager \<Rightarrow> bool" where
  \<comment> \<open>every value in the cache of \<open>self\<close> was there in \<open>self0\<close> or is the provider's answer
      to a text with that key\<close>
  "cache_sound env self0 self =
     (\<forall>k v. cache_files self k = Some (Stored v) \<longrightarrow>
        cache_files self0 k = Some (Stored v)
        \<or> (\<exists>t. get_cache_key env t = k \<and> request_embedding env t = Inr v))"

definition length_provider :: embed_world where
  \<comment> \<open>a provider that answers every text with a one-element vector holding its length;
      cache keys are the hashed strings themselves\<close>
  "length_provider =
     \<lparr>md5_hex = (\<lambda>s. s),
      post_embeddings = (\<lambda>tx. Body (JObj [''embedding'' \<mapsto> JArr [JInt (int (length tx))]])),
      json_str = (\<lambda>v. [])\<rparr>"

section \<open>vector\_store.py: ChromaVectorStore.get\_collection\_info\<close>

text \<open>
  A collection is its name and the metadata of its stored chunks, one entry per chunk
  (\<open>None\<close> for a chunk stored without metadata). \<open>collection.count()\<close> is the number of
  entries. \<open>collection.get()\<close> is a call into the database: it is the parameter \<open>get\<close>,
  which raises or returns the value found under \<open>'metadatas'\<close>, if any.
\<close>

record collection =
  col_name :: string
  col_metadatas :: "meta option list"

record collection_info =
  collection_name :: string
  document_count :: int
  file_count :: int

definition add_source :: "meta option \<Rightarrow> meta_value set \<Rightarrow> meta_value set" where
  \<comment> \<open>one iteration of \<open>for metadata in all_docs['metadatas']\<close>\<close>
  "add_source md unique_sources =
     (case md of
        None \<Rightarrow> unique_sources
      | Some m \<Rightarrow> (case m ''source'' of None \<Rightarrow> unique_sources | Some v \<Rightarrow> insert v unique_sources))"

definition get_collection_info ::
  "(collection \<Rightarrow> exn + meta option list option) \<Rightarrow> collection \<Rightarrow> collection_info" where
  "get_collection_info get col =
     (let total_chunks = int (length (col_metadatas col));
          unique_files =
            (if total_chunks = 0 then 0
             else
               (case get col of
                  Inl e \<Rightarrow> total_chunks
                | Inr all_docs \<Rightarrow>
                    (let unique_sources =
                           (case all_docs of
                              None \<Rightarrow> {}
                            | Some mds \<Rightarrow> if mds \<noteq> [] then fold add_source mds {} else {});
                         n = int (card unique_sources)
                     in if n = 0 \<and> total_chunks > 0 then total_chunks else n)))
      in \<lparr>collection_name = col_name col, document_count = total_chunks,
          file_count = unique_files\<rparr>)"

definition stored_sources :: "collection \<Rightarrow> meta_value set" where
  \<comment> \<open>the distinct \<open>source\<close> values of the stored chunks\<close>
  "stored_sources col = {v. \<exists>m. Some m \<in> set (col_metadatas col) \<and> m ''source'' = Some v}"

definition chunks_of_source :: "string \<Rightarrow> nat \<Rightarrow> meta option list" where
  \<comment> \<open>the metadata of \<open>n\<close> chunks cut from one file\<close>
  "chunks_of_source src n =
     map (\<lambda>i. Some [''source'' \<mapsto> MStr src, ''chunk_id'' \<mapsto> MInt (int i)]) [0..<n]"

section \<open>The scoring rule as the specification words it\<close>

text \<open>
  The tokens of a text are stated without reference to the scanning loop: a token is a run
  of at least three word characters of the lowercased text that cannot be extended, that
  is, with no word character directly before or after it.
\<close>

definition is_token :: "string \<Rightarrow> string \<Rightarrow> bool" where
  "is_token s w =
     (3 \<le> length w \<and> list_all is_word_char w
      \<and> (\<exists>pre post. s = pre @ w @ post
            \<and> (pre = [] \<or> \<not> is_word_char (last pre))
            \<and> (post = [] \<or> \<not> is_word_char (hd post))))"

definition tokens :: "string \<Rightarrow> string set" where
  "tokens s = {w. is_token (py_lower s) w}"

definition claimed_score :: "string \<Rightarrow> document \<Rightarrow> real" where
  \<comment> \<open>\<open>10 * |tokens(question) \<inter> tokens(chunk)| + min(len(chunk)/100, 10)\<close>\<close>
  "claimed_score q d =
     10 * real (card (tokens q \<inter> tokens (page_content d)))
     + min (real (length (page_content d)) / 100) 10"

definition doc_of :: "string \<Rightarrow> document" where
  \<comment> \<open>a stored chunk with the given text and an empty metadata dictionary\<close>
  "doc_of s = \<lparr>page_content = s, metadata = Some Map.empty\<rparr>"

section \<open>Sessions\<close>

text \<open>
  A session is a sequence of operations on one chatbot, each \<open>chat\<close> with the world it runs
  in. \<open>steady_world\<close> is the world in which every search has the same outcome, every
  generation request has the same outcome, and the clock stands still.
\<close>

datatype operation = Chat world string | ClearMemory

fun apply_operation :: "rag_chatbot \<Rightarrow> operation \<Rightarrow> rag_chatbot" where
  "apply_operation self (Chat env prompt) = fst (snd (chat env self prompt))"
| "apply_operation self ClearMemory = clear_memory self"

definition run_session :: "rag_chatbot \<Rightarrow> operation list \<Rightarrow> rag_chatbot" where
  "run_session self ops = foldl apply_operation self ops"

definition steady_world :: "exn + document list \<Rightarrow> http_result \<Rightarrow> world" where
  "steady_world found reply =
     \<lparr>similarity_search = (\<lambda>query k. found),
      post_generate = (\<lambda>p. reply),
      py_str = (\<lambda>v. []),
      py_round3 = (\<lambda>x. x),
      time_start = 0, time_retrieval_start = 0, time_retrieval_end = 0,
      time_generation_start = 0, time_generation_end = 0, time_memory = 0, time_end = 0\<rparr>"

definition memory_ok :: "rag_chatbot \<Rightarrow> bool" where
  \<comment> \<open>the bound the constructor sets, and a memory within it\<close>
  "memory_ok self = (max_memory_items self = 10 \<and> length (memory self) \<le> 10)"

definition long_document :: document where
  \<comment> \<open>a retrieved chunk of 9000 characters\<close>
  "long_document =
     \<lparr>page_content = replicate 9000 CHR ''a'', metadata = Some [''source'' \<mapsto> MStr ''a.txt'']\<rparr>"

section \<open>Chunking: results\<close>

lemma loop_diverges:
  assumes "chunk_size self - chunk_overlap self \<le> 0" and "start < int (length text)"
  shows "create_chunks_loop self text source_name file_type start cid chunks = None"
proof (rule ccontr)
  assume "create_chunks_loop self text source_name file_type start cid chunks \<noteq> None"
  then obtain y where y: "create_chunks_loop self text source_name file_type start cid chunks = Some y"
    by auto
  have "\<not> (chunk_size self - chunk_overlap self \<le> 0 \<and> start < int (length text))"
    by (rule create_chunks_loop.raw_induct
          [where P = "\<lambda>self text source_name file_type start cid chunks y.
                        \<not> (chunk_size self - chunk_overlap self \<le> 0 \<and> start < int (length text))",
           OF _ y])
       (force split: if_splits)
  with assms show False by simp
qed

lemma loop_closed_form:
  assumes s: "0 < chunk_size self - chunk_overlap self"
  shows "create_chunks_loop self text source_name file_type start cid chunks =
         Some (chunks @ map (\<lambda>j. make_chunk self text source_name file_type
                                    (start + int j * (chunk_size self - chunk_overlap self)) (cid + int j))
                            [0..<nat (- ((start - int (length text)) div (chunk_size self - chunk_overlap self)))])"
proof (induction "nat (int (length text) - start)" arbitrary: start cid chunks rule: less_induct)
  case less
  let ?s = "chunk_size self - chunk_overlap self"
  let ?L = "int (length text)"
  show ?case
  proof (cases "start < ?L")
    case False
    then have "0 \<le> (start - ?L) div ?s" using s by (simp add: pos_imp_zdiv_nonneg_iff)
    then have "nat (- ((start - ?L) div ?s)) = 0" by simp
    with False show ?thesis by (subst create_chunks_loop.simps) simp
  next
    case True
    let ?k = "nat (- ((start - ?L) div ?s))"
    have neg: "(start - ?L) div ?s < 0" using True s by (intro div_neg_pos_less0) simp_all
    have step: "(start + ?s - ?L) div ?s = (start - ?L) div ?s + 1"
    proof -
      have "start + ?s - ?L = (start - ?L) + ?s" by simp
      then show ?thesis using s by (simp only: div_add_self2)
    qed
    have k: "?k = Suc (nat (- ((start + ?s - ?L) div ?s)))"
      using neg step by simp
    have m: "nat (?L - (start + ?s)) < nat (?L - start)" using True s by simp
    have upt: "[0..<?k] = 0 # map Suc [0..<nat (- ((start + ?s - ?L) div ?s))]"
      unfolding k by (simp add: upt_conv_Cons map_Suc_upt del: upt_Suc)
    show ?thesis
      apply (subst create_chunks_loop.simps)
      apply (simp only: True if_True less.hyps [OF m] upt)
      apply (simp add: algebra_simps o_def)
      done
  qed
qed

lemma create_chunks_closed_form:
  assumes "chunk_overlap self < chunk_size self"
  shows "create_chunks self text source_name file_type =
         Some (map (\<lambda>j. make_chunk self text source_name file_type
                            (int j * (chunk_size self - chunk_overlap self)) (int j))
                   [0..<nat \<lceil>real (length text) / real_of_int (chunk_size self - chunk_overlap self)\<rceil>])"
proof -
  have "\<lceil>real (length text) / real_of_int (chunk_size self - chunk_overlap self)\<rceil>
        = - ((- int (length text)) div (chunk_size self - chunk_overlap self))"
    using ceiling_divide_eq_div [of "int (length text)" "chunk_size self - chunk_overlap self"]
    by simp
  then show ?thesis
    using assms loop_closed_form [of self "text" source_name file_type 0 0 "[]"]
    by (simp add: create_chunks_def)
qed

lemma meta_int_make_chunk:
  "meta_int (make_chunk self tx source_name file_type start cid) ''chunk_id'' = Some cid"
  "meta_int (make_chunk self tx source_name file_type start cid) ''start_char'' = Some start"
  "meta_int (make_chunk self tx source_name file_type start cid) ''end_char''
     = Some (min (start + chunk_size self) (int (length tx)))"
  by (simp_all add: make_chunk_def meta_int_def Let_def)

lemma py_slice_window:
  assumes "0 \<le> i" and "0 \<le> w"
  shows "py_slice xs i (i + w) = take (nat w) (drop (nat i) xs)"
proof (cases "i \<le> int (length xs)")
  case False
  then show ?thesis using assms by (simp add: py_slice_def slice_index_def Let_def)
next
  case True
  show ?thesis
  proof (cases "i + w \<le> int (length xs)")
    case True
    then show ?thesis using assms \<open>i \<le> int (length xs)\<close>
      by (simp add: py_slice_def slice_index_def Let_def min_def nat_add_distrib)
  next
    case False
    then have "length (drop (nat i) xs) \<le> nat w" using assms True by simp
    then have "take (nat w) (drop (nat i) xs) = drop (nat i) xs" by simp
    then show ?thesis using assms True False
      by (simp add: py_slice_def slice_index_def Let_def min_def)
  qed
qed

lemma page_content_make_chunk:
  assumes "0 \<le> start" and "0 \<le> chunk_size self"
  shows "page_content (make_chunk self tx source_name file_type start cid)
         = take (nat (chunk_size self)) (drop (nat start) tx)"
  using assms by (simp add: make_chunk_def Let_def py_slice_window)

lemma ceil_count_bounds:
  fixes L s :: int
  assumes "0 < s" and "0 < L"
  defines "n \<equiv> \<lceil>real_of_int L / real_of_int s\<rceil>"
  shows "1 \<le> n" and "L \<le> n * s" and "(n - 1) * s < L"
proof -
  have n: "n = - ((- L) div s)" unfolding n_def by (rule ceiling_divide_eq_div)
  have a: "s * ((- L) div s) = - L - (- L) mod s"
    by (simp only: minus_mod_eq_mult_div)
  have b: "0 \<le> (- L) mod s" "(- L) mod s < s" using assms by simp_all
  have "s * n = - (s * ((- L) div s))" unfolding n by simp
  then have c: "s * n = L + (- L) mod s" unfolding a by simp
  show "L \<le> n * s" using b c by (simp add: mult.commute)
  show "(n - 1) * s < L" using b c by (simp add: algebra_simps)
  have "0 < n * s" using \<open>L \<le> n * s\<close> assms by simp
  then have "0 < n" using assms by (simp add: zero_less_mult_iff)
  then show "1 \<le> n" by simp
qed

text \<open>
  C1 (as amended). For a processor with \<open>chunk_size > chunk_overlap \<ge> 0\<close> and a text of
  length \<open>L > 0\<close>, \<open>create_chunks\<close> returns, and returns exactly
  \<open>ceil(L / (chunk_size - chunk_overlap))\<close> chunks. Chunk \<open>i\<close> has \<open>chunk_id = i\<close>, starts at
  \<open>i * stride\<close>, ends at \<open>min(i * stride + chunk_size, L)\<close> and holds that slice of the
  text; the first chunk starts at 0, the last ends at exactly \<open>L\<close>, and two consecutive
  chunks overlap by exactly \<open>chunk_overlap\<close> characters whenever the earlier one is not
  clipped by the end of the text.
\<close>

theorem create_chunks_layout:
  assumes ov: "0 \<le> chunk_overlap self"
    and cs: "chunk_overlap self < chunk_size self"
    and tx: "tx \<noteq> []"
  shows "\<exists>chunks. create_chunks self tx source_name file_type = Some chunks
      \<and> int (length chunks) = \<lceil>real (length tx) / real_of_int (chunk_size self - chunk_overlap self)\<rceil>
      \<and> (\<forall>i < length chunks.
             page_content (chunks ! i)
               = take (nat (chunk_size self)) (drop (i * nat (chunk_size self - chunk_overlap self)) tx)
           \<and> meta_int (chunks ! i) ''chunk_id'' = Some (int i)
           \<and> meta_int (chunks ! i) ''start_char'' = Some (int i * (chunk_size self - chunk_overlap self))
           \<and> meta_int (chunks ! i) ''end_char''
               = Some (min (int i * (chunk_size self - chunk_overlap self) + chunk_size self) (int (length tx))))
      \<and> meta_int (hd chunks) ''start_char'' = Some 0
      \<and> meta_int (last chunks) ''end_char'' = Some (int (length tx))
      \<and> (\<forall>i. Suc i < length chunks
              \<longrightarrow> int i * (chunk_size self - chunk_overlap self) + chunk_size self \<le> int (length tx)
              \<longrightarrow> (\<exists>e s. meta_int (chunks ! i) ''end_char'' = Some e
                       \<and> meta_int (chunks ! Suc i) ''start_char'' = Some s
                       \<and> e - s = chunk_overlap self))"
proof -
  let ?s = "chunk_size self - chunk_overlap self"
  let ?L = "int (length tx)"
  define n where "n = \<lceil>real (length tx) / real_of_int ?s\<rceil>"
  let ?mk = "\<lambda>j. make_chunk self tx source_name file_type (int j * ?s) (int j)"
  let ?chunks = "map ?mk [0..<nat n]"
  have s: "0 < ?s" using cs by simp
  have L: "0 < ?L" using tx by simp
  have bounds: "1 \<le> n" "?L \<le> n * ?s" "(n - 1) * ?s < ?L"
    using ceil_count_bounds [OF s L] unfolding n_def by simp_all
  have run: "create_chunks self tx source_name file_type = Some ?chunks"
    unfolding n_def using cs by (rule create_chunks_closed_form)
  have len: "int (length ?chunks) = n" using bounds(1) by simp
  have nth: "?chunks ! i = ?mk i" if "i < length ?chunks" for i
    using that by simp
  have fields: "page_content (?chunks ! i) = take (nat (chunk_size self)) (drop (i * nat ?s) tx)
      \<and> meta_int (?chunks ! i) ''chunk_id'' = Some (int i)
      \<and> meta_int (?chunks ! i) ''start_char'' = Some (int i * ?s)
      \<and> meta_int (?chunks ! i) ''end_char'' = Some (min (int i * ?s + chunk_size self) ?L)"
    if "i < length ?chunks" for i
  proof -
    have "nat (int i * ?s) = i * nat ?s" using s by (simp add: nat_mult_distrib)
    moreover have "0 \<le> int i * ?s" using s by simp
    moreover have "0 \<le> chunk_size self" using ov cs by simp
    ultimately show ?thesis
      using nth [OF that] by (simp add: meta_int_make_chunk page_content_make_chunk)
  qed
  have ne: "?chunks \<noteq> []" using bounds(1) by simp
  have first: "meta_int (hd ?chunks) ''start_char'' = Some 0"
  proof -
    have "hd ?chunks = ?chunks ! 0" using ne by (simp add: hd_conv_nth)
    also have "\<dots> = ?mk 0" using ne by (intro nth) simp
    finally show ?thesis by (simp add: meta_int_make_chunk)
  qed
  have final: "meta_int (last ?chunks) ''end_char'' = Some ?L"
  proof -
    have idx: "nat n - 1 < length ?chunks" using bounds(1) by simp
    have "last ?chunks = ?chunks ! (nat n - 1)" using ne by (simp add: last_conv_nth)
    also have "\<dots> = ?mk (nat n - 1)" using idx by (rule nth)
    finally have "meta_int (last ?chunks) ''end_char''
        = Some (min (int (nat n - 1) * ?s + chunk_size self) ?L)"
      by (simp add: meta_int_make_chunk)
    moreover have "int (nat n - 1) = n - 1" using bounds(1) by simp
    moreover have "?L \<le> (n - 1) * ?s + chunk_size self"
      using bounds(2) ov by (simp add: algebra_simps)
    ultimately show ?thesis by simp
  qed
  have overlap: "\<exists>e st. meta_int (?chunks ! i) ''end_char'' = Some e
        \<and> meta_int (?chunks ! Suc i) ''start_char'' = Some st \<and> e - st = chunk_overlap self"
    if "Suc i < length ?chunks" and "int i * ?s + chunk_size self \<le> ?L" for i
  proof -
    have "i < length ?chunks" using that(1) by simp
    then have e: "meta_int (?chunks ! i) ''end_char'' = Some (int i * ?s + chunk_size self)"
      using fields [of i] that(2) by simp
    have st: "meta_int (?chunks ! Suc i) ''start_char'' = Some (int (Suc i) * ?s)"
      using fields [OF that(1)] by simp
    have "(int i * ?s + chunk_size self) - int (Suc i) * ?s = chunk_overlap self"
      by (simp add: algebra_simps)
    with e st show ?thesis by blast
  qed
  show ?thesis
    using run len fields first final overlap unfolding n_def by blast
qed

text \<open>C1, witness: chunk size 10 and overlap 5 on a text of ten characters.\<close>

theorem create_chunks_layout_witness:
  "\<exists>chunks. create_chunks \<lparr>chunk_size = 10, chunk_overlap = 5\<rparr> ''abcdefghij'' ''a.txt'' ''.txt'' = Some chunks
      \<and> length chunks = 2
      \<and> meta_int (hd chunks) ''start_char'' = Some 0
      \<and> meta_int (last chunks) ''end_char'' = Some 10"
  using create_chunks_layout [of "\<lparr>chunk_size = 10, chunk_overlap = 5\<rparr>" "''abcdefghij''" "''a.txt''" "''.txt''"]
  by simp blast

text \<open>
  C1, counterexample to the count as the specification states it: with chunk size 10 and
  overlap 5 a text of ten characters is cut into two chunks (\<open>[0,10)\<close> and \<open>[5,10)\<close>),
  while \<open>ceil(max(0, L - overlap) / (chunk_size - overlap))\<close> is 1.
\<close>

theorem create_chunks_count_counterexample:
  "map_option length
     (create_chunks \<lparr>chunk_size = 10, chunk_overlap = 5\<rparr> ''abcdefghij'' ''a.txt'' ''.txt'') = Some 2
   \<and> claimed_chunk_count 10 10 5 = 1"
  by (simp add: create_chunks_closed_form claimed_chunk_count_def)

lemma create_chunks_diverges:
  assumes "chunk_size self \<le> chunk_overlap self" and "tx \<noteq> []"
  shows "create_chunks self tx source_name file_type = None"
  using assms by (simp add: create_chunks_def loop_diverges)

text \<open>
  C3. The claim asks that a configuration with \<open>overlap \<ge> chunk_size\<close> be rejected with an
  error before processing. \<open>create_chunks\<close> has no such check: on a non-empty text it
  never returns. The configuration below is the one the constructor builds from chunk size
  200 and overlap 0, both selectable in the application: the overlap 0 is falsy, so the
  constructor replaces it by the configured default 200 and the stride is 0.
\<close>

theorem create_chunks_zero_stride_never_returns:
  "chunk_overlap (TextProcessor (Some 200) (Some 0)) = 200
   \<and> create_chunks (TextProcessor (Some 200) (Some 0)) ''a'' ''a.txt'' ''.txt'' = None"
  by (simp add: TextProcessor_def py_or_def CHUNK_OVERLAP_def create_chunks_diverges)

section \<open>Greeting fast path: results\<close>

lemma py_in_sublist: "py_in g s = sublist g s"
  by (induction s) (simp_all add: sublist_Cons_right)

lemma dropWhile_keeps_run:
  assumes "g \<noteq> []" and "\<not> P (hd g)"
  shows "\<exists>ps'. dropWhile P (ps @ g @ ss) = ps' @ g @ ss"
proof (induction ps)
  case Nil
  from assms obtain c cs where "g = c # cs" by (cases g) auto
  with assms show ?case by auto
next
  case (Cons p ps)
  then show ?case by (cases "P p") auto
qed

lemma sublist_strip:
  assumes "sublist g s" and "g \<noteq> []" and "\<not> is_space (hd g)" and "\<not> is_space (last g)"
  shows "sublist g (py_strip s)"
proof -
  from assms(1) obtain ps ss where s: "s = ps @ g @ ss" by (auto simp: sublist_def)
  obtain ps' where 1: "dropWhile is_space (ps @ g @ ss) = ps' @ g @ ss"
    using dropWhile_keeps_run [of g is_space ps ss] assms(2,3) by blast
  have "rev g \<noteq> []" "\<not> is_space (hd (rev g))"
    using assms(2,4) by (simp_all add: hd_rev)
  then obtain ss' where 2: "dropWhile is_space (rev ss @ rev g @ rev ps') = ss' @ rev g @ rev ps'"
    using dropWhile_keeps_run [of "rev g" is_space "rev ss" "rev ps'"] by blast
  have "py_strip s = ps' @ g @ rev ss'"
    unfolding py_strip_def s 1 by (simp add: 2)
  then show ?thesis by (auto simp: sublist_def)
qed

lemma sublist_py_strip: "sublist (py_strip s) s"
proof -
  have "suffix (dropWhile is_space (rev (dropWhile is_space s))) (rev (dropWhile is_space s))"
    by (rule suffix_dropWhile)
  then have "sublist (dropWhile is_space (rev (dropWhile is_space s))) (rev (dropWhile is_space s))"
    by (rule suffix_imp_sublist)
  then have "sublist (py_strip s) (dropWhile is_space s)"
    unfolding py_strip_def by (simp add: sublist_rev_left)
  moreover have "sublist (dropWhile is_space s) s"
    by (intro suffix_imp_sublist suffix_dropWhile)
  ultimately show ?thesis by (rule sublist_order.order_trans)
qed

lemma greetings_edges:
  assumes "g \<in> set greetings"
  shows "g \<noteq> []" and "\<not> is_space (hd g)" and "\<not> is_space (last g)"
  using assms by (auto simp: greetings_def is_space_def)

lemma is_simple_greeting_iff:
  "is_simple_greeting q \<longleftrightarrow>
     (\<exists>g \<in> set greetings. sublist g (py_lower q)) \<and> length (py_split q) \<le> 3"
proof -
  have "sublist g (py_strip (py_lower q)) \<longleftrightarrow> sublist g (py_lower q)" if "g \<in> set greetings" for g
  proof
    assume "sublist g (py_strip (py_lower q))"
    then show "sublist g (py_lower q)"
      using sublist_py_strip by (rule sublist_order.order_trans)
  next
    assume "sublist g (py_lower q)"
    then show "sublist g (py_strip (py_lower q))"
      using greetings_edges [OF that] by (intro sublist_strip)
  qed
  then show ?thesis
    by (auto simp: is_simple_greeting_def Let_def list_ex_iff py_in_sublist)
qed

text \<open>
  C4. A question of at most three whitespace-separated tokens whose lowercased text
  contains one of the greeting terms gets the fixed reply, with no sources and all three
  times zero; the chatbot is left as it was and neither the vector store nor the
  generation service is called.
\<close>

theorem greeting_fast_path:
  assumes "length (py_split q) \<le> 3"
    and "\<exists>g \<in> set greetings. sublist g (py_lower q)"
  shows "chat env self q =
           (Inr \<lparr>result_answer = JStr greeting_answer, sources = [],
                 stats = \<lparr>retrieval_time = 0, generation_time = 0, total_time = 0\<rparr>\<rparr>,
            self, [])"
  using assms by (simp add: chat_def is_simple_greeting_iff)

text \<open>C4, witness: the question \<open>Hi there\<close>.\<close>

theorem greeting_fast_path_witness:
  "chat (steady_world (Inr []) (Body JNull)) (RAGChatbot None) ''Hi there'' =
     (Inr \<lparr>result_answer = JStr greeting_answer, sources = [],
           stats = \<lparr>retrieval_time = 0, generation_time = 0, total_time = 0\<rparr>\<rparr>,
      RAGChatbot None, [])"
proof -
  have tokens: "length (py_split ''Hi there'') \<le> 3"
    by (simp add: py_split_def is_space_def)
  have "py_lower ''Hi there'' = ''hi there''"
    by code_simp
  then have "prefix ''hi'' (py_lower ''Hi there'')"
    by simp
  then have "sublist ''hi'' (py_lower ''Hi there'')"
    by (rule prefix_imp_sublist)
  moreover have "''hi'' \<in> set greetings"
    by (simp add: greetings_def)
  ultimately have contains: "\<exists>g \<in> set greetings. sublist g (py_lower ''Hi there'')"
    by blast
  show ?thesis
    using greeting_fast_path [OF tokens contains] .
qed

text \<open>
  C10. The greeting test looks for the greeting terms inside the whole lowercased question.
  \<open>highest mountain?\<close> has two tokens, neither of them a greeting term, and contains
  \<open>hi\<close>: \<open>chat\<close> answers it with the fixed greeting reply and no sources, and makes no
  retrieval call.
\<close>

theorem greeting_matches_inside_words:
  "py_split ''highest mountain?'' = [''highest'', ''mountain?'']
   \<and> filter (\<lambda>w. py_lower w \<in> set greetings) (py_split ''highest mountain?'') = []
   \<and> chat env self ''highest mountain?'' =
       (Inr \<lparr>result_answer = JStr greeting_answer, sources = [],
             stats = \<lparr>retrieval_time = 0, generation_time = 0, total_time = 0\<rparr>\<rparr>,
        self, [])"
proof -
  have split: "py_split ''highest mountain?'' = [''highest'', ''mountain?'']"
    by (simp add: py_split_def is_space_def)
  have lower: "py_lower ''highest'' = ''highest''" "py_lower ''mountain?'' = ''mountain?''"
    by code_simp+
  have none: "filter (\<lambda>w. py_lower w \<in> set greetings) (py_split ''highest mountain?'') = []"
    unfolding split by (simp add: lower greetings_def)
  have greeting: "is_simple_greeting ''highest mountain?''"
    by code_simp
  show ?thesis
    using split none greeting by (simp add: chat_def)
qed

section \<open>Conversation memory: results\<close>


lemma update_memory_fifo:
  assumes "max_memory_items self = 10" and "length (memory self) \<le> 10"
  shows "memory (update_memory self q a t) =
           (if length (memory self) = 10 then tl (memory self) else memory self)
           @ [\<lparr>question = q, answer = a, timestamp = t\<rparr>]"
proof (cases "length (memory self) = 10")
  case True
  then have "memory self \<noteq> []" by auto
  with True assms show ?thesis
    by (simp add: update_memory_def Let_def py_slice_from_def slice_index_def drop_Suc tl_append2)
next
  case False
  with assms show ?thesis
    by (simp add: update_memory_def Let_def)
qed

lemma update_memory_fields:
  "max_memory_items (update_memory self q a t) = max_memory_items self"
  by (simp add: update_memory_def Let_def)

lemma update_stats_fields:
  "memory (update_stats self rt gt) = memory self"
  "max_memory_items (update_stats self rt gt) = max_memory_items self"
  by (simp_all add: update_stats_def Let_def)

lemma chat_memory_cases:
  "fst (snd (chat env self q)) = self
   \<or> (\<exists>a rt gt. fst (snd (chat env self q)) = update_stats (update_memory self q a (time_memory env)) rt gt)"
  by (auto simp: chat_def Let_def split: sum.splits)

lemma memory_ok_update: "memory_ok self \<Longrightarrow> memory_ok (update_memory self q a t)"
  by (auto simp: memory_ok_def update_memory_fields update_memory_fifo)

lemma memory_ok_step: "memory_ok self \<Longrightarrow> memory_ok (apply_operation self op)"
proof (cases op)
  case (Chat env q)
  assume ok: "memory_ok self"
  from chat_memory_cases [of env self q] show ?thesis
  proof
    assume "fst (snd (chat env self q)) = self"
    with ok Chat show ?thesis by simp
  next
    assume "\<exists>a rt gt. fst (snd (chat env self q)) = update_stats (update_memory self q a (time_memory env)) rt gt"
    then obtain a rt gt where "fst (snd (chat env self q)) = update_stats (update_memory self q a (time_memory env)) rt gt"
      by blast
    with memory_ok_update [OF ok, of q a "time_memory env"] Chat show ?thesis
      by (simp add: memory_ok_def update_stats_fields)
  qed
next
  case ClearMemory
  assume "memory_ok self"
  with ClearMemory show ?thesis by (simp add: memory_ok_def clear_memory_def)
qed

lemma memory_ok_run: "memory_ok self \<Longrightarrow> memory_ok (run_session self ops)"
  unfolding run_session_def
  by (induction ops arbitrary: self) (simp_all add: memory_ok_step)

lemma memory_ok_init: "memory_ok (RAGChatbot mt)"
  by (simp add: memory_ok_def RAGChatbot_def)

text \<open>
  C8. In every state a new chatbot reaches through \<open>chat\<close> and \<open>clear_memory\<close> the
  memory holds at most 10 exchanges. Appending to it keeps every exchange in insertion
  order and, when it already holds 10, drops exactly the oldest one. \<open>chat\<close> either leaves
  the memory as it is or appends the one exchange of this turn; \<open>clear_memory\<close> empties it.
\<close>

theorem memory_bounded_fifo:
  "length (memory (run_session (RAGChatbot mt) ops)) \<le> 10
   \<and> memory (update_memory (run_session (RAGChatbot mt) ops) q a t) =
       (if length (memory (run_session (RAGChatbot mt) ops)) = 10
        then tl (memory (run_session (RAGChatbot mt) ops))
        else memory (run_session (RAGChatbot mt) ops))
       @ [\<lparr>question = q, answer = a, timestamp = t\<rparr>]
   \<and> (memory (apply_operation (run_session (RAGChatbot mt) ops) (Chat env q))
         = memory (run_session (RAGChatbot mt) ops)
       \<or> (\<exists>ans. memory (apply_operation (run_session (RAGChatbot mt) ops) (Chat env q))
               = memory (update_memory (run_session (RAGChatbot mt) ops) q ans (time_memory env))))
   \<and> memory (apply_operation (run_session (RAGChatbot mt) ops) ClearMemory) = []"
proof -
  let ?s = "run_session (RAGChatbot mt) ops"
  have ok: "memory_ok ?s" by (intro memory_ok_run memory_ok_init)
  then have 1: "length (memory ?s) \<le> 10" by (simp add: memory_ok_def)
  have 2: "memory (update_memory ?s q a t) =
       (if length (memory ?s) = 10 then tl (memory ?s) else memory ?s)
       @ [\<lparr>question = q, answer = a, timestamp = t\<rparr>]"
    using ok by (intro update_memory_fifo) (simp_all add: memory_ok_def)
  have 3: "memory (apply_operation ?s (Chat env q)) = memory ?s
       \<or> (\<exists>ans. memory (apply_operation ?s (Chat env q))
               = memory (update_memory ?s q ans (time_memory env)))"
    using chat_memory_cases [of env ?s q] by (auto simp: update_stats_fields)
  have 4: "memory (apply_operation ?s ClearMemory) = []"
    by (simp add: clear_memory_def)
  from 1 2 3 4 show ?thesis by blast
qed

section \<open>Generation and context: results\<close>

lemma what_is_it_not_greeting: "\<not> is_simple_greeting ''what is it''"
  by code_simp

lemma chat_not_greeting:
  assumes "\<not> is_simple_greeting q"
  shows "chat env self q =
     (let optimized_query = optimize_query q;
          k = SIMILARITY_SEARCH_K * 2
      in case similarity_search env optimized_query k of
           Inl e \<Rightarrow> (Inl e, self, [SearchCall optimized_query k])
         | Inr docs \<Rightarrow>
             (let rt = time_retrieval_end env - time_retrieval_start env;
                  ranked_docs = py_slice_to (rerank_documents docs q) SIMILARITY_SEARCH_K
              in case prepare_context ranked_docs q of
                   Inl e \<Rightarrow> (Inl e, self, [SearchCall optimized_query k])
                 | Inr context0 \<Rightarrow>
                     (case get_memory_context env self of
                        Inl e \<Rightarrow> (Inl e, self, [SearchCall optimized_query k])
                      | Inr memory_context \<Rightarrow>
                          (let context = (if memory_context \<noteq> []
                                          then memory_context @ ''\<newline>\<newline>'' @ context0
                                          else context0);
                               ans = llm_answer env self q context;
                               gt = time_generation_end env - time_generation_start env;
                               self1 = update_memory self q ans (time_memory env);
                               self2 = update_stats self1 rt gt
                           in (Inr \<lparr>result_answer = ans, sources = ranked_docs,
                                     stats = \<lparr>retrieval_time = py_round3 env rt,
                                               generation_time = py_round3 env gt,
                                               total_time = py_round3 env
                                                  (time_end env - time_start env)\<rparr>\<rparr>,
                               self2,
                               [SearchCall optimized_query k,
                                GenerateCall (llm_payload self q context)])))))"
  using assms by (simp add: chat_def)

lemma chat_completes:
  assumes "\<not> is_simple_greeting q"
    and "similarity_search env (optimize_query q) (SIMILARITY_SEARCH_K * 2) = Inr docs"
    and "prepare_context (py_slice_to (rerank_documents docs q) SIMILARITY_SEARCH_K) q = Inr c0"
    and "get_memory_context env self = Inr mc"
  shows "\<exists>r s calls. chat env self q = (Inr r, s, calls)
           \<and> result_answer r = llm_answer env self q (if mc \<noteq> [] then mc @ ''\<newline>\<newline>'' @ c0 else c0)
           \<and> sources r = py_slice_to (rerank_documents docs q) SIMILARITY_SEARCH_K
           \<and> calls = [SearchCall (optimize_query q) (SIMILARITY_SEARCH_K * 2),
                       GenerateCall (llm_payload self q (if mc \<noteq> [] then mc @ ''\<newline>\<newline>'' @ c0 else c0))]"
  using assms by (simp add: chat_not_greeting Let_def)

lemma chat_memory_failure:
  assumes "\<not> is_simple_greeting q"
    and "similarity_search env (optimize_query q) (SIMILARITY_SEARCH_K * 2) = Inr docs"
    and "prepare_context (py_slice_to (rerank_documents docs q) SIMILARITY_SEARCH_K) q = Inr c0"
    and "get_memory_context env self = Inl e"
  shows "fst (chat env self q) = Inl e"
  using assms by (simp add: chat_not_greeting Let_def)

lemma chat_memory_failure_state:
  assumes "\<not> is_simple_greeting q"
    and "similarity_search env (optimize_query q) (SIMILARITY_SEARCH_K * 2) = Inr docs"
    and "prepare_context (py_slice_to (rerank_documents docs q) SIMILARITY_SEARCH_K) q = Inr c0"
    and "get_memory_context env self = Inl e"
  shows "chat env self q = (Inl e, self, [SearchCall (optimize_query q) (SIMILARITY_SEARCH_K * 2)])"
  using assms by (simp add: chat_not_greeting Let_def)

lemma chat_error_origin:
  assumes "chat env self q = (Inl e, s, calls)"
  shows "similarity_search env (optimize_query q) (SIMILARITY_SEARCH_K * 2) = Inl e
         \<or> (\<exists>docs. similarity_search env (optimize_query q) (SIMILARITY_SEARCH_K * 2) = Inr docs
               \<and> prepare_context (py_slice_to (rerank_documents docs q) SIMILARITY_SEARCH_K) q = Inl e)
         \<or> get_memory_context env self = Inl e"
proof (cases "is_simple_greeting q")
  case True
  with assms show ?thesis by (simp add: chat_def)
next
  case False
  with assms show ?thesis
    by (auto simp: chat_not_greeting Let_def split: sum.splits)
qed

lemma empty_search_chat:
  "chat (steady_world (Inr []) reply) (RAGChatbot None) ''what is it'' =
     (Inr \<lparr>result_answer = llm_answer (steady_world (Inr []) reply) (RAGChatbot None) ''what is it'' ''No relevant documents found.'',
           sources = [],
           stats = \<lparr>retrieval_time = 0, generation_time = 0, total_time = 0\<rparr>\<rparr>,
      update_stats (update_memory (RAGChatbot None) ''what is it''
          (llm_answer (steady_world (Inr []) reply) (RAGChatbot None) ''what is it'' ''No relevant documents found.'') 0) 0 0,
      [SearchCall (optimize_query ''what is it'') 8,
       GenerateCall (llm_payload (RAGChatbot None) ''what is it'' ''No relevant documents found.'')])"
  by (simp add: chat_not_greeting what_is_it_not_greeting Let_def steady_world_def
        rerank_documents_def py_slice_to_def prepare_context_def get_memory_context_def
        RAGChatbot_def SIMILARITY_SEARCH_K_def)

lemma py_strip_no_space: "\<forall>c \<in> set s. \<not> is_space c \<Longrightarrow> py_strip s = s"
proof -
  assume a: "\<forall>c \<in> set s. \<not> is_space c"
  then have 1: "dropWhile is_space s = s" by (cases s) auto
  from a have "dropWhile is_space (rev s) = rev s" by (cases "rev s") (auto dest: arg_cong [where f = set])
  with 1 show ?thesis by (simp add: py_strip_def)
qed

lemma py_strip_replicate_a: "py_strip (replicate n CHR ''a'') = replicate n CHR ''a''"
  by (rule py_strip_no_space) (simp add: is_space_def)

lemma prepare_big:
  "\<exists>c0. prepare_context [long_document] q = Inr c0 \<and> 9000 < length c0"
  by (simp add: prepare_context_def source_label_def long_document_def py_strip_replicate_a Let_def)

lemma rerank_single: "rerank_documents [d] q = [d]"
  by (simp add: rerank_documents_def py_sort_reverse_def Let_def)

lemma chat_passes_long_context:
  "\<exists>ctx. snd (snd (chat (steady_world (Inr [long_document]) (Body (JObj [''response'' \<mapsto> JStr ''ok''])))
                         (RAGChatbot None) ''what is it''))
          = [SearchCall (optimize_query ''what is it'') 8,
             GenerateCall (llm_payload (RAGChatbot None) ''what is it'' ctx)]
      \<and> max_context_length (RAGChatbot None) = 8000
      \<and> 8000 < length ctx"
proof -
  let ?w = "steady_world (Inr [long_document]) (Body (JObj [''response'' \<mapsto> JStr ''ok'']))"
  obtain c0 where c0: "prepare_context [long_document] ''what is it'' = Inr c0" "9000 < length c0"
    using prepare_big by blast
  have search: "similarity_search ?w (optimize_query ''what is it'') (SIMILARITY_SEARCH_K * 2) = Inr [long_document]"
    by (simp add: steady_world_def)
  have ranked: "py_slice_to (rerank_documents [long_document] ''what is it'') SIMILARITY_SEARCH_K = [long_document]"
    by (simp add: rerank_single py_slice_to_def slice_index_def SIMILARITY_SEARCH_K_def)
  have mem: "get_memory_context ?w (RAGChatbot None) = Inr []"
    by (simp add: get_memory_context_def RAGChatbot_def)
  from chat_completes [OF what_is_it_not_greeting search, of c0 "RAGChatbot None" "[]"] c0 ranked mem
  have "snd (snd (chat ?w (RAGChatbot None) ''what is it''))
          = [SearchCall (optimize_query ''what is it'') 8,
             GenerateCall (llm_payload (RAGChatbot None) ''what is it'' c0)]"
    by (auto simp: SIMILARITY_SEARCH_K_def)
  moreover have "max_context_length (RAGChatbot None) = 8000" by (simp add: RAGChatbot_def)
  ultimately show ?thesis using c0(2) by (intro exI [of _ c0]) simp
qed

lemma split_sep_none: "sep \<notin> set xs \<Longrightarrow> split_sep sep cur xs = [cur @ xs]"
  by (induction xs arbitrary: cur) auto

lemma split_sep_first:
  "sep \<notin> set xs \<Longrightarrow> split_sep sep cur (xs @ sep # ys) = (cur @ xs) # split_sep sep [] ys"
  by (induction xs arbitrary: cur) auto

lemma optimize_context_length_overshoots:
  "optimize_context_length (RAGChatbot None) (replicate 8000 CHR ''a'' @ CHR 0x0A # ''b'')
     = replicate 8000 CHR ''a'' @ truncation_marker
   \<and> length (replicate 8000 CHR ''a'' @ truncation_marker) = 8037"
  by (simp add: optimize_context_length_def RAGChatbot_def Let_def py_split_on_def
        split_sep_first truncation_marker_def)

text \<open>
  C9. The claim asks that a malformed response of the generation service become a textual
  answer and that the turn complete with an answer string. The two \<open>except\<close> clauses and
  the default of \<open>data.get\<close> do that for a failed request, an unreadable body and a missing
  \<open>response\<close> member, but not for a member that is present and not text. The service
  answers with the JSON object \<open>{"response": null}\<close>: \<open>llm_answer\<close> returns the member as it
  is, the answer of the turn is \<open>None\<close>, and it is stored in the memory. The next turn
  raises a \<open>TypeError\<close> when \<open>_get_memory_context\<close> slices that answer, and leaves the
  chatbot as it was, so every later turn raises as well.
\<close>

theorem null_response_breaks_later_turns:
  "map_sum id result_answer
     (fst (chat (steady_world (Inr []) (Body (JObj [''response'' \<mapsto> JNull])))
             (RAGChatbot None) ''what is it'')) = Inr JNull
   \<and> chat (steady_world (Inr []) (Body (JObj [''response'' \<mapsto> JNull])))
        (fst (snd (chat (steady_world (Inr []) (Body (JObj [''response'' \<mapsto> JNull])))
                     (RAGChatbot None) ''what is it'')))
        ''what is it''
       = (Inl (TypeError (CHR 0x27 # ''NoneType'' @ CHR 0x27 # '' object is not subscriptable'')),
          fst (snd (chat (steady_world (Inr []) (Body (JObj [''response'' \<mapsto> JNull])))
                     (RAGChatbot None) ''what is it'')),
          [SearchCall (optimize_query ''what is it'') 8])"
proof -
  let ?w = "steady_world (Inr []) (Body (JObj [''response'' \<mapsto> JNull]))"
  let ?s1 = "update_stats (update_memory (RAGChatbot None) ''what is it'' JNull 0) 0 0"
  have ans: "llm_answer ?w (RAGChatbot None) ''what is it'' ''No relevant documents found.'' = JNull"
    by (simp add: llm_answer_def steady_world_def)
  have first: "chat ?w (RAGChatbot None) ''what is it'' =
     (Inr \<lparr>result_answer = JNull, sources = [],
           stats = \<lparr>retrieval_time = 0, generation_time = 0, total_time = 0\<rparr>\<rparr>,
      ?s1,
      [SearchCall (optimize_query ''what is it'') 8,
       GenerateCall (llm_payload (RAGChatbot None) ''what is it'' ''No relevant documents found.'')])"
    using empty_search_chat [of "Body (JObj [''response'' \<mapsto> JNull])"] by (simp only: ans)
  have mem: "get_memory_context ?w ?s1
      = Inl (TypeError (CHR 0x27 # ''NoneType'' @ CHR 0x27 # '' object is not subscriptable''))"
    by (simp add: get_memory_context_def update_stats_def update_memory_def RAGChatbot_def Let_def
          py_slice_from_def slice_index_def answer_prefix_def py_type_name_def)
  have second: "chat ?w ?s1 ''what is it''
      = (Inl (TypeError (CHR 0x27 # ''NoneType'' @ CHR 0x27 # '' object is not subscriptable'')),
         ?s1, [SearchCall (optimize_query ''what is it'') (SIMILARITY_SEARCH_K * 2)])"
  proof (rule chat_memory_failure_state [OF what_is_it_not_greeting _ _ mem])
    show "similarity_search ?w (optimize_query ''what is it'') (SIMILARITY_SEARCH_K * 2) = Inr []"
      by (simp add: steady_world_def)
    show "prepare_context (py_slice_to (rerank_documents [] ''what is it'') SIMILARITY_SEARCH_K) ''what is it''
            = Inr ''No relevant documents found.''"
      by (simp add: rerank_documents_def py_slice_to_def prepare_context_def)
  qed
  show ?thesis
    unfolding first using second by (simp add: SIMILARITY_SEARCH_K_def)
qed

text \<open>
  C2. \<open>chat\<close> never calls \<open>_optimize_context_length\<close>: the context it hands to the
  generation call is the prepared context, with the memory context in front, at its full
  length. With one retrieved chunk of 9000 characters the context is longer than the
  budget of 8000. The helper itself, had it been called, returns up to 37 characters more
  than the budget, since it appends the marker after filling the budget with lines: a
  line of 8000 characters followed by a second line comes back 8037 characters long.
\<close>

theorem chat_context_exceeds_budget:
  "(\<exists>ctx. snd (snd (chat (steady_world (Inr [long_document]) (Body (JObj [''response'' \<mapsto> JStr ''ok''])))
                         (RAGChatbot None) ''what is it''))
          = [SearchCall (optimize_query ''what is it'') 8,
             GenerateCall (llm_payload (RAGChatbot None) ''what is it'' ctx)]
      \<and> max_context_length (RAGChatbot None) = 8000
      \<and> 8000 < length ctx)
   \<and> length (optimize_context_length (RAGChatbot None) (replicate 8000 CHR ''a'' @ CHR 0x0A # ''b''))
       = 8037"
  using chat_passes_long_context optimize_context_length_overshoots by simp

section \<open>Reranking: results\<close>

lemma is_token_run:
  assumes "list_all is_word_char cur"
  shows "is_token cur w \<longleftrightarrow> w = cur \<and> 3 \<le> length cur"
proof
  assume "is_token cur w"
  then obtain pre post where w: "3 \<le> length w" and eq: "cur = pre @ w @ post"
    and l: "pre = [] \<or> \<not> is_word_char (last pre)"
    and r: "post = [] \<or> \<not> is_word_char (hd post)"
    unfolding is_token_def by blast
  have "pre = []"
  proof (rule ccontr)
    assume "pre \<noteq> []"
    then have "last pre \<in> set cur" unfolding eq by simp
    with assms have "is_word_char (last pre)" by (simp add: list_all_iff)
    with l \<open>pre \<noteq> []\<close> show False by simp
  qed
  moreover have "post = []"
  proof (rule ccontr)
    assume "post \<noteq> []"
    then have "hd post \<in> set cur" unfolding eq by simp
    with assms have "is_word_char (hd post)" by (simp add: list_all_iff)
    with r \<open>post \<noteq> []\<close> show False by simp
  qed
  ultimately show "w = cur \<and> 3 \<le> length cur" using eq w by simp
next
  assume "w = cur \<and> 3 \<le> length cur"
  then show "is_token cur w"
    using assms unfolding is_token_def by (intro conjI exI [of _ "[]"]) simp_all
qed

lemma is_token_after_gap:
  assumes c: "\<not> is_word_char c"
  shows "is_token cs w \<Longrightarrow> is_token (cur @ c # cs) w"
proof -
  assume "is_token cs w"
  then obtain pre post where w: "3 \<le> length w" "list_all is_word_char w"
    and eq: "cs = pre @ w @ post"
    and l: "pre = [] \<or> \<not> is_word_char (last pre)"
    and r: "post = [] \<or> \<not> is_word_char (hd post)"
    unfolding is_token_def by blast
  have "cur @ c # cs = (cur @ c # pre) @ w @ post" unfolding eq by simp
  moreover have "\<not> is_word_char (last (cur @ c # pre))" using c l by auto
  ultimately show ?thesis
    unfolding is_token_def using w r by blast
qed

lemma is_token_before_gap:
  assumes c: "\<not> is_word_char c" and cur: "list_all is_word_char cur"
  shows "is_token cur w \<Longrightarrow> is_token (cur @ c # cs) w"
proof -
  assume "is_token cur w"
  then have "w = cur" "3 \<le> length cur" using is_token_run [OF cur] by auto
  then show ?thesis
    unfolding is_token_def using cur c
    by (intro conjI exI [of _ "[]"] exI [of _ "c # cs"]) simp_all
qed

lemma is_token_split:
  assumes c: "\<not> is_word_char c" and cur: "list_all is_word_char cur"
    and t: "is_token (cur @ c # cs) w"
  shows "is_token cur w \<or> is_token cs w"
proof -
  from t obtain pre post where w: "3 \<le> length w" "list_all is_word_char w"
    and eq: "cur @ c # cs = pre @ w @ post"
    and l: "pre = [] \<or> \<not> is_word_char (last pre)"
    and r: "post = [] \<or> \<not> is_word_char (hd post)"
    unfolding is_token_def by blast
  have cw: "c \<notin> set w" using w(2) c by (auto simp: list_all_iff)
  from eq consider us where "cur = pre @ us" "us @ c # cs = w @ post"
    | us where "cur @ us = pre" "c # cs = us @ w @ post"
    by (auto simp: append_eq_append_conv2)
  then show ?thesis
  proof cases
    case 1
    from 1(2) consider vs where "us = w @ vs" "vs @ c # cs = post"
      | vs where "us @ vs = w" "c # cs = vs @ post"
      by (auto simp: append_eq_append_conv2)
    then have "\<exists>vs. us = w @ vs \<and> post = vs @ c # cs"
    proof cases
      case 1
      then show ?thesis by auto
    next
      case 2
      have "vs = []"
      proof (rule ccontr)
        assume "vs \<noteq> []"
        with 2(2) have "hd vs = c" by (cases vs) auto
        with \<open>vs \<noteq> []\<close> have "c \<in> set vs" by (cases vs) auto
        with 2(1) cw show False by auto
      qed
      with 2 show ?thesis by auto
    qed
    then obtain vs where us: "us = w @ vs" and post: "post = vs @ c # cs" by blast
    have curw: "cur = pre @ w @ vs" using 1(1) us by simp
    have "(pre = [] \<or> \<not> is_word_char (last pre))" by (rule l)
    moreover have "vs = [] \<or> \<not> is_word_char (hd vs)"
      using r post by (cases vs) auto
    ultimately have "is_token cur w"
      unfolding is_token_def using w curw by blast
    then show ?thesis ..
  next
    case 2
    have "us \<noteq> []"
    proof
      assume "us = []"
      with 2(2) have "c # cs = w @ post" by simp
      moreover have "w \<noteq> []" using w(1) by auto
      ultimately have "c \<in> set w" by (cases w) auto
      with cw show False ..
    qed
    with 2(2) obtain us' where us: "us = c # us'" and cs: "cs = us' @ w @ post"
      by (cases us) auto
    have "us' = [] \<or> \<not> is_word_char (last us')"
      using l 2(1) us c by (cases "us' = []") auto
    then have "is_token cs w"
      unfolding is_token_def using w cs r by blast
    then show ?thesis ..
  qed
qed

lemma word_runs_tokens:
  "list_all is_word_char cur \<Longrightarrow> set (word_runs cur s) = {w. is_token (cur @ s) w}"
proof (induction s arbitrary: cur)
  case Nil
  then show ?case by (auto simp: is_token_run)
next
  case (Cons c cs)
  show ?case
  proof (cases "is_word_char c")
    case True
    with Cons.prems have "list_all is_word_char (cur @ [c])" by simp
    from Cons.IH [OF this] True show ?thesis by simp
  next
    case False
    have nil: "list_all is_word_char []" by simp
    have "set (word_runs cur (c # cs)) = {w. is_token cur w} \<union> set (word_runs [] cs)"
      using False Cons.prems by (auto simp: is_token_run)
    also have "\<dots> = {w. is_token cur w} \<union> {w. is_token cs w}"
      using Cons.IH [OF nil] by simp
    also have "\<dots> = {w. is_token (cur @ c # cs) w}"
      using is_token_split [OF False Cons.prems] is_token_before_gap [OF False Cons.prems]
        is_token_after_gap [OF False]
      by blast
    finally show ?thesis .
  qed
qed

lemma findall_words_tokens: "set (findall_words s) = {w. is_token s w}"
  using word_runs_tokens [of "[]" s] by (simp add: findall_words_def)

lemma tokens_findall: "set (findall_words (py_lower s)) = tokens s"
  by (simp add: findall_words_tokens tokens_def)

lemma relevance_score_claimed:
  "relevance_score (set (findall_words (py_lower q))) d = claimed_score q d"
  by (simp add: relevance_score_def claimed_score_def tokens_findall Let_def)

lemma rerank_documents_sorted_map:
  "rerank_documents docs q
     = map snd (sort_key (\<lambda>p. - fst p) (map (\<lambda>d. (claimed_score q d, d)) docs))"
  by (cases docs) (simp_all add: rerank_documents_def py_sort_reverse_def Let_def relevance_score_claimed)

lemma scored_snd:
  assumes "mset ps = mset (map (\<lambda>d. (f d, d)) docs)"
  shows "\<forall>p \<in> set ps. fst p = f (snd p)"
proof -
  have "set ps = set (map (\<lambda>d. (f d, d)) docs)" using assms by (rule mset_eq_setD)
  then show ?thesis by auto
qed

lemma rerank_mset: "mset (rerank_documents docs q) = mset docs"
proof -
  have "mset (rerank_documents docs q) = image_mset snd (mset (map (\<lambda>d. (claimed_score q d, d)) docs))"
    by (simp add: rerank_documents_sorted_map)
  also have "\<dots> = mset docs" by (simp add: image_mset.compositionality comp_def)
  finally show ?thesis .
qed

lemma rerank_sorted:
  "sorted_wrt (\<lambda>a b. claimed_score q b \<le> claimed_score q a) (rerank_documents docs q)"
proof -
  let ?ps = "sort_key (\<lambda>p. - fst p) (map (\<lambda>d. (claimed_score q d, d)) docs)"
  have fst: "\<forall>p \<in> set ?ps. fst p = claimed_score q (snd p)"
    by (rule scored_snd [where docs = docs]) simp
  have "sorted (map (\<lambda>p. - fst p) ?ps)" by (rule sorted_sort_key)
  then have "sorted_wrt (\<lambda>a b. fst b \<le> fst a) ?ps"
    by (simp add: sorted_map)
  then have "sorted_wrt (\<lambda>a b. claimed_score q (snd b) \<le> claimed_score q (snd a)) ?ps"
    using fst by (auto elim!: sorted_wrt_mono_rel [rotated])
  then show ?thesis
    by (simp add: rerank_documents_sorted_map sorted_wrt_map)
qed

lemma rerank_stable:
  "filter (\<lambda>d. claimed_score q d = v) (rerank_documents docs q)
     = filter (\<lambda>d. claimed_score q d = v) docs"
proof -
  let ?sc = "map (\<lambda>d. (claimed_score q d, d)) docs"
  let ?ps = "sort_key (\<lambda>p. - fst p) ?sc"
  have fst: "\<forall>p \<in> set ?ps. fst p = claimed_score q (snd p)"
    by (rule scored_snd [where docs = docs]) simp
  have "filter (\<lambda>d. claimed_score q d = v) (map snd ?ps)
      = map snd (filter (\<lambda>p. claimed_score q (snd p) = v) ?ps)"
    by (simp add: filter_map comp_def)
  also have "filter (\<lambda>p. claimed_score q (snd p) = v) ?ps = filter (\<lambda>p. - fst p = - v) ?ps"
    using fst by (intro filter_cong) auto
  also have "\<dots> = filter (\<lambda>p. - fst p = - v) ?sc"
    by (rule sort_key_stable)
  also have "map snd \<dots> = filter (\<lambda>d. claimed_score q d = v) docs"
    by (induction docs) auto
  finally show ?thesis by (simp add: rerank_documents_sorted_map)
qed

lemma py_slice_to_take: "0 \<le> k \<Longrightarrow> py_slice_to xs k = take (nat k) xs"
  by (simp add: py_slice_to_def slice_index_def min_def)

lemma chat_sources:
  assumes "chat env self q = (Inr r, s, calls)" and "\<not> is_simple_greeting q"
  shows "\<exists>found. similarity_search env (optimize_query q) (SIMILARITY_SEARCH_K * 2) = Inr found
           \<and> sources r = take 4 (rerank_documents found q)"
  using assms
  by (auto simp: chat_def Let_def py_slice_to_take SIMILARITY_SEARCH_K_def split: sum.splits)

lemma context_parts_ok:
  "\<forall>d \<in> set docs. metadata d \<noteq> None \<Longrightarrow> \<exists>parts. context_parts i docs = Inr parts"
proof (induction docs arbitrary: i)
  case Nil
  show ?case by simp
next
  case (Cons d docs)
  then obtain parts where "context_parts (i + 1) docs = Inr parts" by fastforce
  moreover from Cons.prems obtain m where "metadata d = Some m" by auto
  ultimately show ?case
    by (simp add: source_label_def Let_def split: option.splits)
qed

lemma prepare_context_ok:
  assumes "\<forall>d \<in> set docs. metadata d \<noteq> None"
  shows "\<exists>c. prepare_context docs q = Inr c"
proof -
  obtain parts where "context_parts 1 docs = Inr parts"
    using context_parts_ok [OF assms] by blast
  then show ?thesis by (simp add: prepare_context_def Let_def)
qed

text \<open>
  C5. The words \<open>_rerank_documents\<close> extracts from a text are exactly its tokens, the runs
  of at least three word characters of the lowercased text that cannot be extended, and
  it scores a candidate by
  \<open>10 * |tokens(question) \<inter> tokens(chunk)| + min(len(chunk) / 100, 10)\<close>. Its result is a
  rearrangement of the candidates in descending order of score that is stable: for every
  score, the candidates with that score appear in the order in which they were retrieved.
  A turn of \<open>chat\<close> that completes outside the greeting path asked the store for
  \<open>2 * SIMILARITY_SEARCH_K\<close> candidates and returns as its sources the first
  \<open>SIMILARITY_SEARCH_K = 4\<close> of the reranked list.
\<close>

theorem rerank_stable_top_k:
  "set (findall_words (py_lower t)) = tokens t
   \<and> relevance_score (tokens q) d = claimed_score q d
   \<and> mset (rerank_documents docs q) = mset docs
   \<and> sorted_wrt (\<lambda>a b. claimed_score q b \<le> claimed_score q a) (rerank_documents docs q)
   \<and> filter (\<lambda>d. claimed_score q d = v) (rerank_documents docs q)
       = filter (\<lambda>d. claimed_score q d = v) docs
   \<and> (chat env self q = (Inr r, s, calls) \<and> \<not> is_simple_greeting q \<longrightarrow>
        (\<exists>found. similarity_search env (optimize_query q) (SIMILARITY_SEARCH_K * 2) = Inr found
           \<and> sources r = take 4 (rerank_documents found q)))"
  using tokens_findall [of t] relevance_score_claimed [of q d] rerank_mset [of docs q]
    rerank_sorted [of q docs] rerank_stable [of q v docs] chat_sources [of env self q r s calls]
  by (simp add: tokens_findall)

lemma lower_examples:
  "py_lower ''what is alpha'' = ''what is alpha''"
  "py_lower ''beta'' = ''beta''"
  "py_lower ''nothing shared in this longer chunk'' = ''nothing shared in this longer chunk''"
  "py_lower ''alpha'' = ''alpha''"
  "py_lower ''ALPHA'' = ''alpha''"
  "py_lower ''What alpha'' = ''what alpha''"
  by code_simp+

lemma findall_examples:
  "findall_words ''what is alpha'' = [''what'', ''alpha'']"
  "findall_words ''beta'' = [''beta'']"
  "findall_words ''nothing shared in this longer chunk''
     = [''nothing'', ''shared'', ''this'', ''longer'', ''chunk'']"
  "findall_words ''alpha'' = [''alpha'']"
  "findall_words ''what alpha'' = [''what'', ''alpha'']"
  by (simp_all add: findall_words_def is_word_char_def)

lemma score_values:
  "claimed_score ''what is alpha'' (doc_of ''beta'') = 4 / 100"
  "claimed_score ''what is alpha'' (doc_of ''nothing shared in this longer chunk'') = 35 / 100"
  "claimed_score ''what is alpha'' (doc_of ''alpha'') = 10 + 5 / 100"
  "claimed_score ''what is alpha'' (doc_of ''ALPHA'') = 10 + 5 / 100"
  "claimed_score ''what is alpha'' (doc_of ''What alpha'') = 20 + 10 / 100"
  by (simp_all add: claimed_score_def tokens_findall [symmetric] doc_of_def lower_examples
        findall_examples)

lemma rerank_example:
  "rerank_documents
     [doc_of ''beta'', doc_of ''nothing shared in this longer chunk'', doc_of ''alpha'',
      doc_of ''ALPHA'', doc_of ''What alpha'']
     ''what is alpha''
   = [doc_of ''What alpha'', doc_of ''alpha'', doc_of ''ALPHA'',
      doc_of ''nothing shared in this longer chunk'', doc_of ''beta'']"
  by (simp add: rerank_documents_sorted_map score_values)

lemma what_is_alpha_not_greeting: "\<not> is_simple_greeting ''what is alpha''"
  by code_simp

lemma tokens_example: "set (findall_words (py_lower ''What alpha'')) = {''what'', ''alpha''}"
  by (simp add: lower_examples findall_examples)

text \<open>
  C5, witness: five candidates for the question \<open>what is alpha\<close>. The tokens of
  \<open>What alpha\<close> are \<open>what\<close> and \<open>alpha\<close>, both in the question, so it scores 20.1 and
  comes first although three candidates are as long or longer; \<open>alpha\<close> and \<open>ALPHA\<close>
  share one token with the question, tie at 10.05 and stay in retrieval order; the longest
  candidate shares no token, scores 0.35 and comes fourth; \<open>beta\<close> is cut off.
\<close>

theorem rerank_stable_top_k_witness:
  "tokens ''What alpha'' = {''what'', ''alpha''}
   \<and> relevance_score (tokens ''what is alpha'') (doc_of ''What alpha'') = 20 + 10 / 100
   \<and> (\<exists>r s calls.
        chat (steady_world
                (Inr [doc_of ''beta'', doc_of ''nothing shared in this longer chunk'',
                      doc_of ''alpha'', doc_of ''ALPHA'', doc_of ''What alpha''])
                (Body (JObj [''response'' \<mapsto> JStr ''ok''])))
             (RAGChatbot None) ''what is alpha'' = (Inr r, s, calls)
        \<and> sources r = [doc_of ''What alpha'', doc_of ''alpha'', doc_of ''ALPHA'',
                        doc_of ''nothing shared in this longer chunk''])"
proof -
  let ?docs = "[doc_of ''beta'', doc_of ''nothing shared in this longer chunk'', doc_of ''alpha'',
                doc_of ''ALPHA'', doc_of ''What alpha'']"
  let ?top = "[doc_of ''What alpha'', doc_of ''alpha'', doc_of ''ALPHA'',
               doc_of ''nothing shared in this longer chunk'']"
  let ?w = "steady_world (Inr ?docs) (Body (JObj [''response'' \<mapsto> JStr ''ok'']))"
  let ?q = "''what is alpha''"
  have search: "similarity_search ?w (optimize_query ?q) (SIMILARITY_SEARCH_K * 2) = Inr ?docs"
    by (simp add: steady_world_def)
  have top: "py_slice_to (rerank_documents ?docs ?q) SIMILARITY_SEARCH_K = ?top"
    by (simp add: rerank_example py_slice_to_take SIMILARITY_SEARCH_K_def)
  obtain c0 where c0: "prepare_context (py_slice_to (rerank_documents ?docs ?q) SIMILARITY_SEARCH_K) ?q = Inr c0"
    unfolding top using prepare_context_ok [of ?top ?q]
    by (auto simp: doc_of_def)
  have mem: "get_memory_context ?w (RAGChatbot None) = Inr []"
    by (simp add: get_memory_context_def RAGChatbot_def)
  obtain r s calls where run: "chat ?w (RAGChatbot None) ?q = (Inr r, s, calls)"
    using chat_completes [OF what_is_alpha_not_greeting search c0 mem] by blast
  note inst = rerank_stable_top_k
      [of "''What alpha''" ?q "doc_of ''What alpha''" ?docs 0 ?w "RAGChatbot None" r s calls]
  have tok: "tokens ''What alpha'' = {''what'', ''alpha''}"
    using inst tokens_example by simp
  have score: "relevance_score (tokens ?q) (doc_of ''What alpha'') = 20 + 10 / 100"
    using inst by (simp add: score_values)
  have "sources r = take 4 (rerank_documents ?docs ?q)"
    using inst run what_is_alpha_not_greeting search by simp
  then have "sources r = ?top"
    by (simp add: rerank_example)
  with run tok score show ?thesis by blast
qed

section \<open>Embedding order: results\<close>

lemma load_keeps_reads:
  "cached_value (snd (load_from_cache self k)) k' = cached_value self k'"
  by (auto simp: cached_value_def load_from_cache_def split: option.splits cache_file.splits)

lemma load_fst: "fst (load_from_cache self k) = cached_value self k"
  by (simp add: cached_value_def)


lemma check_cache_result:
  "\<exists>self'. check_cache env self idx txs (be, ut, ui) =
     ((be @ map (\<lambda>(i, t). (i, cached_value self (get_cache_key env t)))
               (filter (\<lambda>(i, t). hit env self t) (zip [idx..<idx + length txs] txs)),
       ut @ map snd (filter (\<lambda>(i, t). \<not> hit env self t) (zip [idx..<idx + length txs] txs)),
       ui @ map fst (filter (\<lambda>(i, t). \<not> hit env self t) (zip [idx..<idx + length txs] txs))),
      self')
     \<and> (\<forall>k. cached_value self' k = cached_value self k)"
proof (induction txs arbitrary: self idx be ut ui)
  case Nil
  show ?case by simp
next
  case (Cons tx txs)
  let ?s1 = "snd (load_from_cache self (get_cache_key env tx))"
  have reads: "cached_value ?s1 k = cached_value self k" for k
    by (rule load_keeps_reads)
  then have hits: "hit env ?s1 t = hit env self t" for t
    by (simp add: hit_def)
  have upt: "[idx..<idx + length (tx # txs)] = idx # [Suc idx..<Suc idx + length txs]"
    by (subst upt_rec) simp
  show ?case
  proof (cases "hit env self tx")
    case True
    from Cons.IH [of ?s1 "Suc idx" "be @ [(idx, cached_value self (get_cache_key env tx))]" ut ui]
    obtain self' where
      "check_cache env ?s1 (Suc idx) txs (be @ [(idx, cached_value self (get_cache_key env tx))], ut, ui) =
        (((be @ [(idx, cached_value self (get_cache_key env tx))])
            @ map (\<lambda>(i, t). (i, cached_value ?s1 (get_cache_key env t)))
               (filter (\<lambda>(i, t). hit env ?s1 t) (zip [Suc idx..<Suc idx + length txs] txs)),
          ut @ map snd (filter (\<lambda>(i, t). \<not> hit env ?s1 t) (zip [Suc idx..<Suc idx + length txs] txs)),
          ui @ map fst (filter (\<lambda>(i, t). \<not> hit env ?s1 t) (zip [Suc idx..<Suc idx + length txs] txs))),
         self')"
      and "\<forall>k. cached_value self' k = cached_value ?s1 k"
      by blast
    then show ?thesis
      using True unfolding upt
      by (intro exI [of _ self'])
         (simp add: split_def Let_def load_fst reads hits hit_def [symmetric])
  next
    case False
    from Cons.IH [of ?s1 "Suc idx" be "ut @ [tx]" "ui @ [idx]"]
    obtain self' where
      "check_cache env ?s1 (Suc idx) txs (be, ut @ [tx], ui @ [idx]) =
        ((be @ map (\<lambda>(i, t). (i, cached_value ?s1 (get_cache_key env t)))
               (filter (\<lambda>(i, t). hit env ?s1 t) (zip [Suc idx..<Suc idx + length txs] txs)),
          (ut @ [tx]) @ map snd (filter (\<lambda>(i, t). \<not> hit env ?s1 t) (zip [Suc idx..<Suc idx + length txs] txs)),
          (ui @ [idx]) @ map fst (filter (\<lambda>(i, t). \<not> hit env ?s1 t) (zip [Suc idx..<Suc idx + length txs] txs))),
         self')"
      and "\<forall>k. cached_value self' k = cached_value ?s1 k"
      by blast
    then show ?thesis
      using False unfolding upt
      by (intro exI [of _ self'])
         (simp add: split_def Let_def load_fst reads hits hit_def [symmetric])
  qed
qed

lemma fetch_uncached_result:
  assumes "i + length txs \<le> length ui"
  shows "fst (fetch_uncached env self i txs ui be) =
     (case collect (map (request_embedding env) txs) of
        Inl e \<Rightarrow> Inl e
      | Inr vs \<Rightarrow> Inr (be @ zip (take (length txs) (drop i ui)) vs))"
  using assms
proof (induction txs arbitrary: self i be)
  case Nil
  show ?case by simp
next
  case (Cons tx txs)
  show ?case
  proof (cases "request_embedding env tx")
    case (Inl e)
    then show ?thesis by simp
  next
    case (Inr v)
    have i: "i < length ui" using Cons.prems by simp
    have "Suc i + length txs \<le> length ui" using Cons.prems by simp
    note IH = Cons.IH [OF this]
    have dr: "take (Suc (length txs)) (drop i ui) = ui ! i # take (length txs) (drop (Suc i) ui)"
      using i by (simp add: Cons_nth_drop_Suc [symmetric])
    show ?thesis
      using Inr i by (simp add: Let_def IH dr split: sum.splits)
  qed
qed

lemma resolve_cases:
  "resolve env self tx =
     (if hit env self tx then Inr (cached_value self (get_cache_key env tx))
      else request_embedding env tx)"
  by (simp add: resolve_def hit_def Let_def)

lemma merge_in_order:
  "case collect (map (request_embedding env)
                  (map snd (filter (\<lambda>(i, t). \<not> hit env self t) (enumerate idx txs)))) of
           Inl e \<Rightarrow> collect (map (resolve env self) txs) = Inl e
         | Inr vs \<Rightarrow>
             (\<exists>ws. collect (map (resolve env self) txs) = Inr ws \<and> length ws = length txs
                \<and> mset (map (\<lambda>(i, t). (i, cached_value self (get_cache_key env t)))
                            (filter (\<lambda>(i, t). hit env self t) (enumerate idx txs))
                          @ zip (map fst (filter (\<lambda>(i, t). \<not> hit env self t) (enumerate idx txs))) vs)
                    = mset (zip [idx..<idx + length txs] ws))"
proof (induction txs arbitrary: idx)
  case Nil
  show ?case by simp
next
  case (Cons tx txs)
  have upt: "[idx..<idx + length (tx # txs)] = idx # [Suc idx..<Suc idx + length txs]"
    by (subst upt_rec) simp
  have en: "enumerate idx (tx # txs) = (idx, tx) # enumerate (Suc idx) txs"
    by simp
  note IH = Cons.IH [of "Suc idx"]
  show ?case
  proof (cases "hit env self tx")
    case True
    then show ?thesis
      using IH unfolding en upt
      by (auto simp: resolve_cases split: sum.splits)
  next
    case False
    show ?thesis
    proof (cases "request_embedding env tx")
      case (Inl e)
      with False show ?thesis unfolding en by (simp add: resolve_cases)
    next
      case (Inr v)
      with False show ?thesis
        using IH unfolding en upt
        by (auto simp: resolve_cases split: sum.splits)
    qed
  qed
qed

lemma inj_on_fst_zip: "distinct xs \<Longrightarrow> inj_on fst (set (zip xs ys))"
proof (induction xs arbitrary: ys)
  case Nil
  show ?case by simp
next
  case (Cons x xs)
  show ?case
  proof (cases ys)
    case Nil
    then show ?thesis by simp
  next
    case (Cons y ys')
    have "x \<notin> fst ` set (zip xs ys')" using Cons.prems by (auto dest: set_zip_leftD)
    then show ?thesis
      using Cons Cons.prems Cons.IH [of ys'] by (auto simp: inj_on_def)
  qed
qed

lemma sort_back:
  assumes "mset ps = mset (zip [idx..<idx + length ws] ws)"
  shows "map snd (sort_key fst ps) = ws"
proof -
  let ?zs = "zip [idx..<idx + length ws] ws"
  have "set ps = set ?zs" using assms by (rule mset_eq_setD)
  then have "inj_on fst (set ps)" by (simp add: inj_on_fst_zip)
  moreover have "sorted (map fst ?zs)" by simp
  ultimately have "sort_key fst ps = ?zs"
    using assms by (intro sort_key_inj_key_eq)
  then show ?thesis by simp
qed

lemma process_batch_fst:
  assumes "check_cache env self 0 batch ([], [], []) = ((be, ut, ui), self1)"
  shows "fst (process_batch env self batch)
         = map_sum id (\<lambda>fetched. map snd (sort_key fst fetched))
             (fst (fetch_uncached env self1 0 ut ui be))"
  using assms
  by (cases "fetch_uncached env self1 0 ut ui be")
     (auto simp: process_batch_def split: sum.splits)

lemma process_batch_in_order:
  "fst (process_batch env self batch) = collect (map (resolve env self) batch)"
proof -
  let ?en = "zip [0..<length batch] batch"
  let ?hits = "map (\<lambda>(i, t). (i, cached_value self (get_cache_key env t)))
                 (filter (\<lambda>(i, t). hit env self t) ?en)"
  let ?ut = "map snd (filter (\<lambda>(i, t). \<not> hit env self t) ?en)"
  let ?ui = "map fst (filter (\<lambda>(i, t). \<not> hit env self t) ?en)"
  obtain self1 where cc: "check_cache env self 0 batch ([], [], []) = ((?hits, ?ut, ?ui), self1)"
    using check_cache_result [of env self 0 batch "[]" "[]" "[]"] by auto
  note fetch = fetch_uncached_result [of 0 ?ut ?ui env self1 ?hits]
  note merge = merge_in_order [where env = env and self = self and idx = 0 and txs = batch,
      unfolded enumerate_eq_zip]
  show ?thesis
  proof (cases "collect (map (request_embedding env) ?ut)")
    case (Inl e)
    have "collect (map (resolve env self) batch) = Inl e"
      using merge Inl by simp
    moreover have "fst (fetch_uncached env self1 0 ?ut ?ui ?hits) = Inl e"
      using fetch Inl by simp
    then have "fst (process_batch env self batch) = Inl e"
      by (simp add: process_batch_fst [OF cc])
    ultimately show ?thesis by simp
  next
    case (Inr vs)
    obtain ws where ws: "collect (map (resolve env self) batch) = Inr ws"
      "length ws = length batch"
      "mset (?hits @ zip ?ui vs) = mset (zip [0..<0 + length batch] ws)"
      using merge Inr by auto
    have "map snd (sort_key fst (?hits @ zip ?ui vs)) = ws"
      using ws(3) unfolding ws(2) [symmetric] by (rule sort_back)
    moreover have "fst (fetch_uncached env self1 0 ?ut ?ui ?hits) = Inr (?hits @ zip ?ui vs)"
      using fetch Inr by simp
    ultimately have "fst (process_batch env self batch) = Inr ws"
      by (simp add: process_batch_fst [OF cc])
    with ws(1) show ?thesis by simp
  qed
qed

lemma cache_sound_refl: "cache_sound env self self"
  by (simp add: cache_sound_def)

lemma load_sound:
  "cache_sound env self0 self \<Longrightarrow> cache_sound env self0 (snd (load_from_cache self k))"
  by (auto simp: cache_sound_def load_from_cache_def split: option.splits cache_file.splits if_splits)

lemma save_sound:
  assumes "cache_sound env self0 self" and "request_embedding env tx = Inr v"
  shows "cache_sound env self0 (save_to_cache self (get_cache_key env tx) v)"
  using assms by (auto simp: cache_sound_def save_to_cache_def)

lemma check_cache_sound:
  "cache_sound env self0 self \<Longrightarrow> cache_sound env self0 (snd (check_cache env self idx txs acc))"
proof (induction txs arbitrary: self idx acc)
  case Nil
  then show ?case by simp
next
  case (Cons tx txs)
  obtain be ut ui where acc: "acc = (be, ut, ui)" by (cases acc) auto
  have "cache_sound env self0 (snd (load_from_cache self (get_cache_key env tx)))"
    using Cons.prems by (rule load_sound)
  then show ?case
    unfolding acc by (simp add: split_def Let_def Cons.IH)
qed

lemma fetch_uncached_sound:
  "cache_sound env self0 self \<Longrightarrow>
     cache_sound env self0 (snd (fetch_uncached env self i txs ui be))"
proof (induction txs arbitrary: self i be)
  case Nil
  then show ?case by simp
next
  case (Cons tx txs)
  show ?case
  proof (cases "request_embedding env tx")
    case (Inl e)
    with Cons.prems show ?thesis by simp
  next
    case (Inr v)
    have "cache_sound env self0 (save_to_cache self (get_cache_key env tx) v)"
      using Cons.prems Inr by (rule save_sound)
    with Cons.prems Inr show ?thesis by (simp add: Let_def Cons.IH)
  qed
qed

lemma process_batch_sound:
  assumes "cache_sound env self0 self"
  shows "cache_sound env self0 (snd (process_batch env self batch))"
proof -
  obtain be ut ui self1 where cc: "check_cache env self 0 batch ([], [], []) = ((be, ut, ui), self1)"
    by (metis prod.exhaust)
  have "cache_sound env self0 self1"
    using check_cache_sound [OF assms, of 0 batch "([], [], [])"] cc by simp
  then have "cache_sound env self0 (snd (fetch_uncached env self1 0 ut ui be))"
    by (rule fetch_uncached_sound)
  then show ?thesis
    by (cases "fetch_uncached env self1 0 ut ui be")
       (auto simp: process_batch_def cc split: sum.splits)
qed

lemma collect_Inr: "collect rs = Inr vs \<Longrightarrow> list_all2 (\<lambda>r v. r = Inr v) rs vs"
proof (induction rs arbitrary: vs)
  case Nil
  then show ?case by simp
next
  case (Cons r rs)
  then show ?case by (cases r) (auto split: sum.splits)
qed

lemma collect_all_ok: "\<forall>r \<in> set rs. \<exists>v. r = Inr v \<Longrightarrow> \<exists>vs. collect rs = Inr vs"
  by (induction rs) auto

lemma cached_value_stored:
  "cached_value self k = v \<Longrightarrow> v \<noteq> JNull \<Longrightarrow> cache_files self k = Some (Stored v)"
  by (auto simp: cached_value_def load_from_cache_def split: option.splits cache_file.splits if_splits)

lemma resolve_sound:
  assumes "cache_sound env self0 self" and "resolve env self tx = Inr v"
  shows "embedding_of env self0 tx v"
proof (cases "hit env self tx")
  case True
  with assms(2) have "cached_value self (get_cache_key env tx) = v" "v \<noteq> JNull"
    by (auto simp: resolve_cases hit_def)
  then have "cache_files self (get_cache_key env tx) = Some (Stored v)"
    by (rule cached_value_stored)
  with assms(1) show ?thesis
    unfolding cache_sound_def embedding_of_def by blast
next
  case False
  with assms(2) have "request_embedding env tx = Inr v" by (simp add: resolve_cases)
  then show ?thesis unfolding embedding_of_def by blast
qed

lemma process_batch_embeddings:
  assumes "cache_sound env self0 self" and "fst (process_batch env self batch) = Inr embs"
  shows "list_all2 (embedding_of env self0) batch embs"
proof -
  have "collect (map (resolve env self) batch) = Inr embs"
    using assms(2) by (simp add: process_batch_in_order)
  then have "list_all2 (\<lambda>r v. r = Inr v) (map (resolve env self) batch) embs"
    by (rule collect_Inr)
  then have "list_all2 (\<lambda>t v. resolve env self t = Inr v) batch embs"
    by (simp add: list_all2_map1)
  then show ?thesis
    by (rule list_all2_mono) (rule resolve_sound [OF assms(1)])
qed

lemma process_batch_returns:
  assumes "\<forall>t \<in> set batch. \<exists>v. request_embedding env t = Inr v"
  shows "\<exists>embs. fst (process_batch env self batch) = Inr embs"
proof -
  have "\<forall>r \<in> set (map (resolve env self) batch). \<exists>v. r = Inr v"
    using assms by (auto simp: resolve_cases)
  then show ?thesis
    unfolding process_batch_in_order by (rule collect_all_ok)
qed

lemma set_py_slice: "set (py_slice xs i j) \<subseteq> set xs"
  unfolding py_slice_def Let_def
  by (meson order_trans set_take_subset set_drop_subset)

lemma embed_batches_returns:
  assumes "\<forall>t \<in> set text_list. \<exists>v. request_embedding env t = Inr v"
  shows "\<exists>embs. fst (embed_batches env self text_list bs starts acc) = Inr embs"
proof (induction starts arbitrary: self acc)
  case Nil
  show ?case by simp
next
  case (Cons i starts)
  let ?batch = "py_slice text_list i (i + bs)"
  have "\<forall>t \<in> set ?batch. \<exists>v. request_embedding env t = Inr v"
    using assms set_py_slice [of text_list i "i + bs"] by blast
  then obtain be where "fst (process_batch env self ?batch) = Inr be"
    using process_batch_returns by blast
  then obtain self1 where "process_batch env self ?batch = (Inr be, self1)"
    by (cases "process_batch env self ?batch") auto
  then show ?case by (simp add: Let_def Cons.IH)
qed

lemma embed_batches_in_order:
  assumes bs: "0 < bs"
    and cover: "length text_list \<le> m * nat bs"
    and sound: "cache_sound env self0 self"
    and acc: "list_all2 (embedding_of env self0) (take (k * nat bs) text_list) acc"
    and run: "fst (embed_batches env self text_list bs (map (\<lambda>j. int j * bs) [k..<m]) acc) = Inr embs"
  shows "list_all2 (embedding_of env self0) text_list embs"
  using sound acc run
proof (induction "m - k" arbitrary: k self acc)
  case 0
  then have "m \<le> k" by simp
  then have "m * nat bs \<le> k * nat bs" by (rule mult_le_mono1)
  with cover have "length text_list \<le> k * nat bs" by (rule order_trans)
  then have "take (k * nat bs) text_list = text_list" by simp
  moreover have "embs = acc" using "0.prems"(3) \<open>m \<le> k\<close> by simp
  ultimately show ?case using "0.prems"(2) by simp
next
  case (Suc d)
  then have k: "k < m" by simp
  let ?batch = "py_slice text_list (int k * bs) (int k * bs + bs)"
  have upt: "[k..<m] = k # [Suc k..<m]" using k by (simp add: upt_conv_Cons)
  have nat_start: "nat (int k * bs) = k * nat bs" using bs by (simp add: nat_mult_distrib)
  have batch: "?batch = take (nat bs) (drop (k * nat bs) text_list)"
    using bs by (simp add: py_slice_window nat_start)
  obtain res self1 where pb: "process_batch env self ?batch = (res, self1)"
    by (cases "process_batch env self ?batch") auto
  show ?case
  proof (cases res)
    case (Inl e)
    with Suc.prems(3) pb show ?thesis unfolding upt by (simp add: Let_def)
  next
    case (Inr be)
    have sound1: "cache_sound env self0 self1"
      using process_batch_sound [OF Suc.prems(1), of ?batch] pb by simp
    have "list_all2 (embedding_of env self0) ?batch be"
      using process_batch_embeddings [OF Suc.prems(1), of ?batch be] pb Inr by simp
    then have "list_all2 (embedding_of env self0)
        (take (k * nat bs) text_list @ take (nat bs) (drop (k * nat bs) text_list)) (acc @ be)"
      using Suc.prems(2) unfolding batch by (rule list_all2_appendI [rotated])
    moreover have "Suc k * nat bs = k * nat bs + nat bs" by simp
    ultimately have acc1: "list_all2 (embedding_of env self0) (take (Suc k * nat bs) text_list) (acc @ be)"
      by (simp only: take_add)
    have run1: "fst (embed_batches env self1 text_list bs (map (\<lambda>j. int j * bs) [Suc k..<m]) (acc @ be))
        = Inr embs"
      using Suc.prems(3) pb Inr unfolding upt by (simp add: Let_def)
    have "d = m - Suc k" using Suc.hyps(2) by simp
    from Suc.hyps(1) [OF this sound1 acc1 run1] show ?thesis .
  qed
qed

lemma batches_cover:
  fixes n bs :: int
  assumes "0 < bs" and "0 \<le> n"
  shows "n \<le> int (nat ((n + bs - 1) div bs)) * bs"
proof -
  have "bs * ((n + bs - 1) div bs) = (n + bs - 1) - (n + bs - 1) mod bs"
    by (simp only: minus_mod_eq_mult_div)
  moreover have "(n + bs - 1) mod bs < bs" using assms by simp
  ultimately have "n \<le> ((n + bs - 1) div bs) * bs" by (simp add: mult.commute)
  moreover have "0 \<le> (n + bs - 1) div bs" using assms by (simp add: pos_imp_zdiv_nonneg_iff)
  ultimately show ?thesis by simp
qed

lemma embed_text_in_order_aux:
  assumes bs: "0 < bs" and run: "fst (embed_text env self texts bs) = Inr embs"
  shows "list_all2 (embedding_of env self) (text_list_of texts) embs"
proof -
  let ?tl = "text_list_of texts"
  let ?m = "nat ((int (length ?tl) + bs - 1) div bs)"
  show ?thesis
  proof (cases "?tl = []")
    case True
    with run bs show ?thesis by (simp add: embed_text_def py_range_def Let_def)
  next
    case False
    then have starts: "py_range (int (length ?tl)) bs = Inr (map (\<lambda>j. int j * bs) [0..<?m])"
      using bs by (simp add: py_range_def)
    have "int (length ?tl) \<le> int ?m * bs"
      using batches_cover [OF bs, of "int (length ?tl)"] by simp
    then have "int (length ?tl) \<le> int (?m * nat bs)" using bs by simp
    then have cover: "length ?tl \<le> ?m * nat bs" by linarith
    have run': "fst (embed_batches env self ?tl bs (map (\<lambda>j. int j * bs) [0..<?m]) []) = Inr embs"
      using run by (simp add: embed_text_def Let_def starts)
    show ?thesis
      by (rule embed_batches_in_order [OF bs cover cache_sound_refl _ run']) simp
  qed
qed

lemma embed_text_returns_aux:
  assumes bs: "0 < bs" and ok: "\<forall>t \<in> set (text_list_of texts). \<exists>v. request_embedding env t = Inr v"
  shows "\<exists>embs. fst (embed_text env self texts bs) = Inr embs"
proof -
  obtain starts where "py_range (int (length (text_list_of texts))) bs = Inr starts"
    using bs by (cases "text_list_of texts = []") (auto simp: py_range_def)
  then show ?thesis
    using embed_batches_returns [OF ok] by (simp add: embed_text_def Let_def)
qed

text \<open>
  C6. A batch is answered text by text in input order: the result of \<open>_process_batch\<close> is
  the list of the per-text embeddings (the cached value on a hit, the provider's answer
  on a miss), or the first error among them; the two passes and the sort by index change
  nothing else. For a positive batch size, when \<open>embed_text\<close> returns it returns one
  embedding per input text, the \<open>i\<close>-th being an embedding of the \<open>i\<close>-th text (the
  value cached under its key, or the provider's answer to a text with that key); and it
  does return when the provider answers every text of the input.
\<close>

theorem embed_text_in_order:
  "fst (process_batch env self batch) = collect (map (resolve env self) batch)
   \<and> (0 < batch_size \<and> fst (embed_text env self texts batch_size) = Inr embs \<longrightarrow>
        list_all2 (embedding_of env self) (text_list_of texts) embs)
   \<and> (0 < batch_size \<and> (\<forall>t \<in> set (text_list_of texts). \<exists>v. request_embedding env t = Inr v) \<longrightarrow>
        (\<exists>result. fst (embed_text env self texts batch_size) = Inr result))"
  using process_batch_in_order [of env self batch]
    embed_text_in_order_aux [of batch_size env self texts embs]
    embed_text_returns_aux [of batch_size texts env self]
  by blast

lemma embed_example:
  "fst (embed_text length_provider
         \<lparr>cache_enabled = True,
          cache_files = [''nomic-embed-text:latest:b'' \<mapsto> Stored (JArr [JInt 7])]\<rparr>
         (Texts [''a'', ''b'', ''cc'']) 2)
     = Inr [JArr [JInt 1], JArr [JInt 7], JArr [JInt 2]]"
  by (simp add: embed_text_def text_list_of_def py_range_def Let_def py_slice_def slice_index_def
        process_batch_def load_from_cache_def save_to_cache_def get_cache_key_def
        request_embedding_def length_provider_def OLLAMA_EMBEDDING_MODEL_def upt_rec split_def)

text \<open>
  C6, witness: three texts in batches of two, the second one cached; the result has the
  cached vector between the two fetched ones.
\<close>

theorem embed_text_in_order_witness:
  "fst (embed_text length_provider
         \<lparr>cache_enabled = True,
          cache_files = [''nomic-embed-text:latest:b'' \<mapsto> Stored (JArr [JInt 7])]\<rparr>
         (Texts [''a'', ''b'', ''cc'']) 2)
     = Inr [JArr [JInt 1], JArr [JInt 7], JArr [JInt 2]]
   \<and> list_all2
        (embedding_of length_provider
           \<lparr>cache_enabled = True,
            cache_files = [''nomic-embed-text:latest:b'' \<mapsto> Stored (JArr [JInt 7])]\<rparr>)
        [''a'', ''b'', ''cc''] [JArr [JInt 1], JArr [JInt 7], JArr [JInt 2]]"
proof -
  let ?m = "\<lparr>cache_enabled = True,
             cache_files = [''nomic-embed-text:latest:b'' \<mapsto> Stored (JArr [JInt 7])]\<rparr>"
  let ?e = "[JArr [JInt 1], JArr [JInt 7], JArr [JInt 2]]"
  have ok: "\<forall>t \<in> set (text_list_of (Texts [''a'', ''b'', ''cc''])).
              \<exists>v. request_embedding length_provider t = Inr v"
    by (simp add: text_list_of_def request_embedding_def length_provider_def)
  have size: "(0::int) < 2" by simp
  from embed_text_in_order [of length_provider ?m "[]" 2 "Texts [''a'', ''b'', ''cc'']" ?e]
    embed_example ok size
  have "list_all2 (embedding_of length_provider ?m) (text_list_of (Texts [''a'', ''b'', ''cc''])) ?e"
    by blast
  then show ?thesis using embed_example by (simp add: text_list_of_def)
qed

section \<open>Collection info: results\<close>

lemma add_source_union:
  "add_source md acc = acc \<union> {v. \<exists>m. md = Some m \<and> m ''source'' = Some v}"
  by (auto simp: add_source_def split: option.splits)

lemma fold_add_source:
  "fold add_source mds acc = acc \<union> {v. \<exists>m. Some m \<in> set mds \<and> m ''source'' = Some v}"
proof (induction mds arbitrary: acc)
  case Nil
  show ?case by simp
next
  case (Cons md mds)
  have "fold add_source (md # mds) acc = fold add_source mds (add_source md acc)" by simp
  also have "\<dots> = add_source md acc \<union> {v. \<exists>m. Some m \<in> set mds \<and> m ''source'' = Some v}"
    by (rule Cons.IH)
  also have "\<dots> = acc \<union> {v. \<exists>m. Some m \<in> set (md # mds) \<and> m ''source'' = Some v}"
    unfolding add_source_union by auto
  finally show ?case .
qed

lemma finite_stored_sources: "finite (stored_sources col)"
proof -
  have "stored_sources col \<subseteq> (\<lambda>md. the (the md ''source'')) ` set (col_metadatas col)"
    by (force simp: stored_sources_def)
  then show ?thesis by (rule finite_surj [rotated]) simp
qed

text \<open>
  C7. When the database returns the stored metadata, \<open>document_count\<close> is the number of
  stored chunks and \<open>file_count\<close> is the number of distinct \<open>source\<close> values among them,
  however the chunks are spread over the sources; when no chunk has a \<open>source\<close>,
  \<open>file_count\<close> is the number of chunks.
\<close>

theorem collection_info_counts:
  assumes "get col = Inr (Some (col_metadatas col))"
  shows "document_count (get_collection_info get col) = int (length (col_metadatas col))
       \<and> file_count (get_collection_info get col)
           = (if stored_sources col = {} then int (length (col_metadatas col))
              else int (card (stored_sources col)))"
proof -
  have src: "fold add_source (col_metadatas col) {} = stored_sources col"
    by (simp add: fold_add_source stored_sources_def)
  have empty: "stored_sources col = {}" if "col_metadatas col = []"
    using that by (simp add: stored_sources_def)
  have card0: "card (stored_sources col) = 0 \<longleftrightarrow> stored_sources col = {}"
    using finite_stored_sources by simp
  show ?thesis
    using assms src empty card0
    by (auto simp: get_collection_info_def Let_def)
qed

lemma sources_example:
  "stored_sources \<lparr>col_name = ''pdf_documents'',
                   col_metadatas = chunks_of_source ''a.pdf'' 7 @ chunks_of_source ''b.txt'' 3\<rparr>
     = {MStr ''a.pdf'', MStr ''b.txt''}"
proof -
  have mem: "Some m \<in> set (chunks_of_source src n)
      \<longleftrightarrow> (\<exists>i<n. m = [''source'' \<mapsto> MStr src, ''chunk_id'' \<mapsto> MInt (int i)])" for m src n
    by (auto simp: chunks_of_source_def)
  have one: "{v. \<exists>m. Some m \<in> set (chunks_of_source src n) \<and> m ''source'' = Some v}
      = (if n = 0 then {} else {MStr src})" for src n
    unfolding mem by auto
  have "stored_sources \<lparr>col_name = ''pdf_documents'',
                   col_metadatas = chunks_of_source ''a.pdf'' 7 @ chunks_of_source ''b.txt'' 3\<rparr>
     = {v. \<exists>m. Some m \<in> set (chunks_of_source ''a.pdf'' 7) \<and> m ''source'' = Some v}
       \<union> {v. \<exists>m. Some m \<in> set (chunks_of_source ''b.txt'' 3) \<and> m ''source'' = Some v}"
    by (auto simp: stored_sources_def)
  then show ?thesis unfolding one by auto
qed

text \<open>C7, witness: seven chunks of one file and three of another give 10 and 2.\<close>

theorem collection_info_counts_witness:
  "get_collection_info (\<lambda>c. Inr (Some (col_metadatas c)))
     \<lparr>col_name = ''pdf_documents'',
      col_metadatas = chunks_of_source ''a.pdf'' 7 @ chunks_of_source ''b.txt'' 3\<rparr>
   = \<lparr>collection_name = ''pdf_documents'', document_count = 10, file_count = 2\<rparr>"
proof -
  let ?col = "\<lparr>col_name = ''pdf_documents'',
               col_metadatas = chunks_of_source ''a.pdf'' 7 @ chunks_of_source ''b.txt'' 3\<rparr>"
  let ?get = "\<lambda>c. Inr (Some (col_metadatas c)) :: exn + meta option list option"
  have "document_count (get_collection_info ?get ?col) = 10
      \<and> file_count (get_collection_info ?get ?col) = 2"
    using collection_info_counts [of ?get ?col]
    by (simp add: sources_example) (simp add: chunks_of_source_def)
  moreover have "collection_name (get_collection_info ?get ?col) = ''pdf_documents''"
    by (simp add: get_collection_info_def Let_def)
  ultimately show ?thesis
    by (cases "get_collection_info ?get ?col") simp
qed

lemma no_source_example:
  "get_collection_info (\<lambda>c. Inr (Some (col_metadatas c)))
     \<lparr>col_name = ''pdf_documents'', col_metadatas = [Some [''chunk_id'' \<mapsto> MInt 0], None, Some Map.empty]\<rparr>
   = \<lparr>collection_name = ''pdf_documents'', document_count = 3, file_count = 3\<rparr>"
  by (simp add: get_collection_info_def Let_def add_source_def)

end
